theory Spec2Isabelle
  imports Main "HOL-Library.Word"
begin

section \<open>The JNI bridge to llama.cpp (llama-jni.cpp)\<close>

text \<open>
  The bridge keeps one global \<open>LlamaContext\<close> and drives the llama.cpp library through
  its C interface. The library itself is a dependency, not part of the bridge: each of
  its functions is a field of the record \<open>llama_api\<close>, over a library state \<open>'w\<close>
  that the bridge never looks into. Every theorem below holds for every such library.

  Pointers are addresses, \<open>nullptr\<close> is address 0. A \<open>jint\<close> is an \<open>int\<close> (within the
  32-bit range), a \<open>jfloat\<close> its 32-bit pattern (the bridge only passes it on), a
  \<open>std::string\<close> a list of bytes and a \<open>jstring\<close> such a list or null. The
  conversion of the result back to a \<open>jstring\<close> and the log lines are left out.
  Each entry point takes the state of the process and returns the new one; the state
  records every library call made, in order, so that what a property says about the
  order or the absence of calls can be read off it.
\<close>

type_synonym ptr = nat
type_synonym llama_token = int
type_synonym jfloat = "32 word"

definition nullptr :: ptr where
  "nullptr = 0"

subsection \<open>Global state\<close>

record LlamaContext =
  model :: ptr
  ctx :: ptr
  vocab :: ptr
  is_loaded :: bool

text \<open>The fields of \<open>llama_context_params\<close> that the bridge sets; the others keep the
  library's defaults.\<close>

record llama_context_params =
  n_ctx :: "32 word"
  n_threads :: int
  n_threads_batch :: int

subsection \<open>The library interface\<close>

text \<open>One constructor per library function the bridge calls, with the arguments passed
  and, last, the value returned (when the bridge reads it).\<close>

datatype llama_call =
    Backend_Init
  | Backend_Free
  | Model_Load_From_File string ptr
  | Model_Free ptr
  | Model_Get_Vocab ptr ptr
  | Init_From_Model ptr llama_context_params ptr
  | Free ptr
  | Get_Memory ptr ptr
  | Memory_Clear ptr bool
  | N_Ctx ptr nat
  | Tokenize ptr string nat bool bool int
  | Decode ptr "llama_token list" int
  | Sampler_Chain_Init ptr
  | Sampler_Init_Temp jfloat ptr
  | Sampler_Init_Dist "32 word" ptr
  | Sampler_Chain_Add ptr ptr
  | Sampler_Sample ptr ptr int llama_token
  | Sampler_Free ptr
  | Vocab_Eos ptr llama_token
  | Vocab_Is_Eog ptr llama_token bool
  | Token_To_Piece ptr llama_token nat int bool int

text \<open>
  The functions of llama.h. Those that read or change the model, the context (its KV
  cache and logits) or a sampler take the library state and return the new one. The
  vocabulary is reached through a \<open>const llama_vocab *\<close>: its functions are pure.
  \<open>llama_n_ctx\<close> is the context's capacity in tokens, read into an \<open>int\<close> by the bridge
  (a capacity that does not fit an \<open>int\<close> is outside this model).
  \<open>llama_token_to_piece\<close> returns the count it reports and the buffer it filled.
  \<open>tokenize_text\<close> is the complete tokenisation of a text, whatever its length;
  \<open>llama_tokenize\<close> below is the buffer-bounded C function built on it.
  \<open>llama_batch_get_one\<close> and the \<open>*_default_params\<close> functions only build a struct
  and are not listed.
\<close>

record 'w llama_api =
  llama_backend_init :: "'w \<Rightarrow> 'w"
  llama_backend_free :: "'w \<Rightarrow> 'w"
  llama_model_load_from_file :: "string \<Rightarrow> 'w \<Rightarrow> ptr \<times> 'w"
  llama_model_free :: "ptr \<Rightarrow> 'w \<Rightarrow> 'w"
  llama_model_get_vocab :: "ptr \<Rightarrow> ptr"
  llama_init_from_model :: "ptr \<Rightarrow> llama_context_params \<Rightarrow> 'w \<Rightarrow> ptr \<times> 'w"
  llama_free :: "ptr \<Rightarrow> 'w \<Rightarrow> 'w"
  llama_get_memory :: "ptr \<Rightarrow> 'w \<Rightarrow> ptr"
  llama_memory_clear :: "ptr \<Rightarrow> bool \<Rightarrow> 'w \<Rightarrow> 'w"
  llama_n_ctx :: "ptr \<Rightarrow> 'w \<Rightarrow> nat"
  tokenize_text :: "ptr \<Rightarrow> string \<Rightarrow> bool \<Rightarrow> bool \<Rightarrow> llama_token list"
  llama_decode :: "ptr \<Rightarrow> llama_token list \<Rightarrow> 'w \<Rightarrow> int \<times> 'w"
  llama_sampler_chain_init :: "'w \<Rightarrow> ptr \<times> 'w"
  llama_sampler_init_temp :: "jfloat \<Rightarrow> 'w \<Rightarrow> ptr \<times> 'w"
  llama_sampler_init_dist :: "32 word \<Rightarrow> 'w \<Rightarrow> ptr \<times> 'w"
  llama_sampler_chain_add :: "ptr \<Rightarrow> ptr \<Rightarrow> 'w \<Rightarrow> 'w"
  llama_sampler_sample :: "ptr \<Rightarrow> ptr \<Rightarrow> int \<Rightarrow> 'w \<Rightarrow> llama_token \<times> 'w"
  llama_sampler_free :: "ptr \<Rightarrow> 'w \<Rightarrow> 'w"
  llama_vocab_eos :: "ptr \<Rightarrow> llama_token"
  llama_vocab_is_eog :: "ptr \<Rightarrow> llama_token \<Rightarrow> bool"
  llama_token_to_piece :: "ptr \<Rightarrow> llama_token \<Rightarrow> nat \<Rightarrow> int \<Rightarrow> bool \<Rightarrow> int \<times> string"
  LLAMA_DEFAULT_SEED :: "32 word"

text \<open>
  Modelled from the spec: \<open>llama_tokenize\<close> of llama.h, which is not part of the bridge.
  The spec of the tokenizer adapter: the encoding is requested into a buffer of a given
  capacity, and "if the true token count exceeds that capacity the operation fails
  (reports a tokenization-overflow condition) rather than silently truncating". The
  failure is the negative count, the form the bridge tests for.
\<close>

definition llama_tokenize ::
  "'w llama_api \<Rightarrow> ptr \<Rightarrow> string \<Rightarrow> nat \<Rightarrow> bool \<Rightarrow> bool \<Rightarrow> int \<times> llama_token list" where
  "llama_tokenize api v text n_tokens_max add_special parse_special =
     (let toks = tokenize_text api v text add_special parse_special
      in if length toks \<le> n_tokens_max then (int (length toks), toks)
         else (- int (length toks), []))"

subsection \<open>The state of the process\<close>

text \<open>The bridge's global, the library's state, and the library calls made so far, in
  order.\<close>

record 'w state =
  g_llama :: LlamaContext
  world :: "'w"
  calls :: "llama_call list"

definition lib_call :: "llama_call \<Rightarrow> 'w \<Rightarrow> 'w state \<Rightarrow> 'w state" where
  "lib_call e w s = s\<lparr>world := w, calls := calls s @ [e]\<rparr>"

definition new_calls :: "'w state \<Rightarrow> 'w state \<Rightarrow> llama_call list" where
  "new_calls s s' = drop (length (calls s)) (calls s')"

definition g_initial :: LlamaContext where
  "g_initial = \<lparr>model = nullptr, ctx = nullptr, vocab = nullptr, is_loaded = False\<rparr>"

subsection \<open>Helpers\<close>

definition jstring_to_string :: "string option \<Rightarrow> string" where
  "jstring_to_string jstr = (case jstr of None \<Rightarrow> [] | Some chars \<Rightarrow> chars)"

text \<open>\<open>std::string::find\<close> from position 0 (\<open>None\<close> is \<open>npos\<close>) and
  \<open>std::string::substr\<close>.\<close>

fun str_find :: "string \<Rightarrow> string \<Rightarrow> nat option" where
  "str_find [] pat = (if pat = [] then Some 0 else None)"
| "str_find (x # xs) pat =
     (if take (length pat) (x # xs) = pat then Some 0
      else map_option Suc (str_find xs pat))"

definition substr :: "string \<Rightarrow> nat \<Rightarrow> nat \<Rightarrow> string" where
  "substr s pos len = take len (drop pos s)"

definition im_end :: string where
  "im_end = ''<|im_end|>''"

subsection \<open>nativeInit, nativeLoadModel, nativeIsLoaded, nativeFree\<close>

definition nativeInit :: "'w llama_api \<Rightarrow> 'w state \<Rightarrow> 'w state" where
  "nativeInit api s = lib_call Backend_Init (llama_backend_init api (world s)) s"

text \<open>The two guarded releases that nativeLoadModel and nativeFree both contain.\<close>

definition release_ctx :: "'w llama_api \<Rightarrow> 'w state \<Rightarrow> 'w state" where
  "release_ctx api s =
     (let c = ctx (g_llama s)
      in if c \<noteq> nullptr
         then (lib_call (Free c) (llama_free api c (world s)) s)
                \<lparr>g_llama := (g_llama s)\<lparr>ctx := nullptr\<rparr>\<rparr>
         else s)"

definition release_model :: "'w llama_api \<Rightarrow> 'w state \<Rightarrow> 'w state" where
  "release_model api s =
     (let m = model (g_llama s)
      in if m \<noteq> nullptr
         then (lib_call (Model_Free m) (llama_model_free api m (world s)) s)
                \<lparr>g_llama := (g_llama s)\<lparr>model := nullptr\<rparr>\<rparr>
         else s)"

definition set_is_loaded :: "bool \<Rightarrow> 'w state \<Rightarrow> 'w state" where
  "set_is_loaded b s = s\<lparr>g_llama := (g_llama s)\<lparr>is_loaded := b\<rparr>\<rparr>"

text \<open>Lines 79 to 89: a model that is loaded is released first.\<close>

definition unload_previous :: "'w llama_api \<Rightarrow> 'w state \<Rightarrow> 'w state" where
  "unload_previous api s0 =
     (if is_loaded (g_llama s0)
      then set_is_loaded False (release_model api (release_ctx api s0))
      else s0)"

definition nativeLoadModel ::
  "'w llama_api \<Rightarrow> string option \<Rightarrow> int \<Rightarrow> int \<Rightarrow> 'w state \<Rightarrow> bool \<times> 'w state" where
  "nativeLoadModel api modelPath nThreads nCtx s0 =
     (let s1 = unload_previous api s0;
          path = jstring_to_string modelPath;
          (m, w2) = llama_model_load_from_file api path (world s1);
          s2 = (lib_call (Model_Load_From_File path m) w2 s1)
                 \<lparr>g_llama := (g_llama s1)\<lparr>model := m\<rparr>\<rparr>
      in if m = nullptr then (False, s2)
         else
           let v = llama_model_get_vocab api m;
               s3 = (lib_call (Model_Get_Vocab m v) (world s2) s2)
                      \<lparr>g_llama := (g_llama s2)\<lparr>vocab := v\<rparr>\<rparr>;
               ctx_params = \<lparr>n_ctx = word_of_int nCtx, n_threads = nThreads,
                             n_threads_batch = nThreads\<rparr>;
               (c, w4) = llama_init_from_model api m ctx_params (world s3);
               s4 = (lib_call (Init_From_Model m ctx_params c) w4 s3)
                      \<lparr>g_llama := (g_llama s3)\<lparr>ctx := c\<rparr>\<rparr>
           in if c = nullptr
              then (False,
                    (lib_call (Model_Free m) (llama_model_free api m (world s4)) s4)
                      \<lparr>g_llama := (g_llama s4)\<lparr>model := nullptr\<rparr>\<rparr>)
              else (True, set_is_loaded True s4))"

definition nativeIsLoaded :: "'w state \<Rightarrow> bool" where
  "nativeIsLoaded s = is_loaded (g_llama s)"

definition nativeFree :: "'w llama_api \<Rightarrow> 'w state \<Rightarrow> 'w state" where
  "nativeFree api s0 =
     (let s1 = set_is_loaded False (release_model api (release_ctx api s0))
      in lib_call Backend_Free (llama_backend_free api (world s1)) s1)"

subsection \<open>nativeGenerate\<close>

text \<open>Lines 147 to 150: the KV cache is cleared when the context has a memory.\<close>

definition clear_kv :: "'w llama_api \<Rightarrow> 'w state \<Rightarrow> 'w state" where
  "clear_kv api s =
     (let c = ctx (g_llama s);
          mem = llama_get_memory api c (world s);
          s1 = lib_call (Get_Memory c mem) (world s) s
      in if mem \<noteq> nullptr
         then lib_call (Memory_Clear mem True) (llama_memory_clear api mem True (world s1)) s1
         else s1)"

text \<open>The text appended for one token (lines 199 to 203): the first \<open>n\<close> bytes of the
  256-byte buffer when \<open>n\<close> is positive, nothing otherwise.\<close>

definition token_text :: "'w llama_api \<Rightarrow> ptr \<Rightarrow> llama_token \<Rightarrow> string" where
  "token_text api v t =
     (let (n, buf) = llama_token_to_piece api v t 256 0 True
      in if n > 0 then take (nat n) buf else [])"

text \<open>One pass through the body of the sampling loop (lines 189 to 218). The flag is
  \<open>False\<close> when the body leaves the loop through \<open>break\<close>.\<close>

definition gen_body ::
  "'w llama_api \<Rightarrow> ptr \<Rightarrow> ptr \<Rightarrow> ptr \<Rightarrow> string \<times> 'w state \<Rightarrow> bool \<times> string \<times> 'w state" where
  "gen_body api v c sampler rs =
     (let (result, s) = rs;
          (new_token, w1) = llama_sampler_sample api sampler c (- 1) (world s);
          s1 = lib_call (Sampler_Sample sampler c (- 1) new_token) w1 s;
          eog = llama_vocab_is_eog api v new_token;
          s2 = lib_call (Vocab_Is_Eog v new_token eog) (world s1) s1
      in if eog then (False, result, s2)
         else
           let n = fst (llama_token_to_piece api v new_token 256 0 True);
               s3 = lib_call (Token_To_Piece v new_token 256 0 True n) (world s2) s2;
               result1 = result @ token_text api v new_token
           in case str_find result1 im_end of
                Some pos \<Rightarrow> (False, substr result1 0 pos, s3)
              | None \<Rightarrow>
                  let (rc, w4) = llama_decode api c [new_token] (world s3);
                      s4 = lib_call (Decode c [new_token] rc) w4 s3
                  in if rc \<noteq> 0 then (False, result1, s4) else (True, result1, s4))"

function gen_loop ::
  "'w llama_api \<Rightarrow> ptr \<Rightarrow> ptr \<Rightarrow> ptr \<Rightarrow> int \<Rightarrow> int \<Rightarrow> string \<times> 'w state \<Rightarrow> string \<times> 'w state" where
  "gen_loop api v c sampler max_gen i rs =
     (if i < max_gen then
        (case gen_body api v c sampler rs of
           (True, rs') \<Rightarrow> gen_loop api v c sampler max_gen (i + 1) rs'
         | (False, rs') \<Rightarrow> rs')
      else rs)"
  by pat_completeness auto
termination
  by (relation "measure (\<lambda>(api, v, c, sampler, max_gen, i, rs). nat (max_gen - i))") auto

declare gen_loop.simps [simp del]

definition nativeGenerate ::
  "'w llama_api \<Rightarrow> string option \<Rightarrow> int \<Rightarrow> jfloat \<Rightarrow> 'w state \<Rightarrow> string \<times> 'w state" where
  "nativeGenerate api prompt maxTokens temperature s0 =
     (let g = g_llama s0
      in if \<not> is_loaded g \<or> ctx g = nullptr \<or> model g = nullptr then ([], s0)
         else
           let prompt_str = jstring_to_string prompt;
               s1 = clear_kv api s0;
               n_prompt_max = llama_n_ctx api (ctx g) (world s1);
               s2 = lib_call (N_Ctx (ctx g) n_prompt_max) (world s1) s1;
               (n_prompt_tokens, buf) =
                  llama_tokenize api (vocab g) prompt_str n_prompt_max True True;
               s3 = lib_call (Tokenize (vocab g) prompt_str n_prompt_max True True
                                n_prompt_tokens) (world s2) s2
           in if n_prompt_tokens < 0 then ([], s3)
              else
                let prompt_tokens = take (nat n_prompt_tokens) buf;
                    (rc, w4) = llama_decode api (ctx g) prompt_tokens (world s3);
                    s4 = lib_call (Decode (ctx g) prompt_tokens rc) w4 s3
                in if rc \<noteq> 0 then ([], s4)
                   else
                     let (sampler, w5) = llama_sampler_chain_init api (world s4);
                         s5 = lib_call (Sampler_Chain_Init sampler) w5 s4;
                         (st, w6) = llama_sampler_init_temp api temperature (world s5);
                         s6 = lib_call (Sampler_Init_Temp temperature st) w6 s5;
                         s7 = lib_call (Sampler_Chain_Add sampler st)
                                (llama_sampler_chain_add api sampler st (world s6)) s6;
                         (sd, w8) = llama_sampler_init_dist api (LLAMA_DEFAULT_SEED api) (world s7);
                         s8 = lib_call (Sampler_Init_Dist (LLAMA_DEFAULT_SEED api) sd) w8 s7;
                         s9 = lib_call (Sampler_Chain_Add sampler sd)
                                (llama_sampler_chain_add api sampler sd (world s8)) s8;
                         eos_token = llama_vocab_eos api (vocab g);
                         s10 = lib_call (Vocab_Eos (vocab g) eos_token) (world s9) s9;
                         max_gen = maxTokens;
                         (result, s11) = gen_loop api (vocab g) (ctx g) sampler max_gen 0 ([], s10);
                         s12 = lib_call (Sampler_Free sampler)
                                 (llama_sampler_free api sampler (world s11)) s11
                     in (result, s12))"

section \<open>Reading the list of library calls\<close>

text \<open>The tokens returned by \<open>llama_sampler_sample\<close> and the tokens handed to
  \<open>llama_token_to_piece\<close>, in order.\<close>

definition sample_of :: "llama_call \<Rightarrow> llama_token list" where
  "sample_of e = (case e of Sampler_Sample smpl c idx t \<Rightarrow> [t] | _ \<Rightarrow> [])"

definition sampled :: "llama_call list \<Rightarrow> llama_token list" where
  "sampled evs = concat (map sample_of evs)"

definition piece_of :: "llama_call \<Rightarrow> llama_token list" where
  "piece_of e = (case e of Token_To_Piece v t len lstrip special n \<Rightarrow> [t] | _ \<Rightarrow> [])"

definition detokenized :: "llama_call list \<Rightarrow> llama_token list" where
  "detokenized evs = concat (map piece_of evs)"

definition decode_failed :: "llama_call \<Rightarrow> bool" where
  "decode_failed e = (case e of Decode c ts rc \<Rightarrow> rc \<noteq> 0 | _ \<Rightarrow> False)"

definition is_decode :: "llama_call \<Rightarrow> bool" where
  "is_decode e = (case e of Decode c ts rc \<Rightarrow> True | _ \<Rightarrow> False)"

definition is_memory_clear :: "llama_call \<Rightarrow> bool" where
  "is_memory_clear e = (case e of Memory_Clear mem d \<Rightarrow> True | _ \<Rightarrow> False)"

text \<open>The calls that create or destroy a model or a context.\<close>

definition is_lifecycle :: "llama_call \<Rightarrow> bool" where
  "is_lifecycle e =
     (case e of Model_Load_From_File path m \<Rightarrow> True | Model_Free m \<Rightarrow> True
              | Init_From_Model m p c \<Rightarrow> True | Free c \<Rightarrow> True | _ \<Rightarrow> False)"

text \<open>The models and the contexts that are alive after a list of calls: created (the
  call returned a pointer that is not null) and not freed since.\<close>

definition track_models :: "ptr list \<Rightarrow> llama_call \<Rightarrow> ptr list" where
  "track_models ms e =
     (case e of Model_Load_From_File path m \<Rightarrow> (if m \<noteq> nullptr then ms @ [m] else ms)
              | Model_Free m \<Rightarrow> remove1 m ms
              | _ \<Rightarrow> ms)"

definition track_ctxs :: "ptr list \<Rightarrow> llama_call \<Rightarrow> ptr list" where
  "track_ctxs cs e =
     (case e of Init_From_Model m p c \<Rightarrow> (if c \<noteq> nullptr then cs @ [c] else cs)
              | Free c \<Rightarrow> remove1 c cs
              | _ \<Rightarrow> cs)"

definition alive_models :: "llama_call list \<Rightarrow> ptr list" where
  "alive_models evs = foldl track_models [] evs"

definition alive_ctxs :: "llama_call list \<Rightarrow> ptr list" where
  "alive_ctxs evs = foldl track_ctxs [] evs"

text \<open>At every point of the history at most one model and at most one context is
  alive.\<close>

definition at_most_one_alive :: "llama_call list \<Rightarrow> bool" where
  "at_most_one_alive evs =
     (\<forall>n \<in> {..length evs}. length (alive_models (take n evs)) \<le> 1
                           \<and> length (alive_ctxs (take n evs)) \<le> 1)"

text \<open>The global and the history agree: the model and the context the global points to
  are exactly the ones alive, and the flag is set exactly when both pointers are.\<close>

definition lifecycle_inv :: "'w state \<Rightarrow> bool" where
  "lifecycle_inv s =
     (at_most_one_alive (calls s)
      \<and> alive_models (calls s)
          = (if model (g_llama s) = nullptr then [] else [model (g_llama s)])
      \<and> alive_ctxs (calls s)
          = (if ctx (g_llama s) = nullptr then [] else [ctx (g_llama s)])
      \<and> (is_loaded (g_llama s)
           = (model (g_llama s) \<noteq> nullptr \<and> ctx (g_llama s) \<noteq> nullptr))
      \<and> (model (g_llama s) = nullptr) = (ctx (g_llama s) = nullptr))"

text \<open>An occurrence of a pattern in a string at a position.\<close>

definition occurs_at :: "string \<Rightarrow> string \<Rightarrow> nat \<Rightarrow> bool" where
  "occurs_at pat s q = (q + length pat \<le> length s \<and> take (length pat) (drop q s) = pat)"

text \<open>The states the process can be in: the global as initialised, any library state,
  and then any sequence of the five JNI entry points.\<close>

inductive reachable :: "'w llama_api \<Rightarrow> 'w state \<Rightarrow> bool" for api :: "'w llama_api" where
  start: "reachable api \<lparr>g_llama = g_initial, world = w, calls = []\<rparr>"
| init: "reachable api s \<Longrightarrow> reachable api (nativeInit api s)"
| load: "reachable api s \<Longrightarrow> reachable api (snd (nativeLoadModel api modelPath nThreads nCtx s))"
| generate: "reachable api s \<Longrightarrow>
     reachable api (snd (nativeGenerate api prompt maxTokens temperature s))"
| free: "reachable api s \<Longrightarrow> reachable api (nativeFree api s)"

section \<open>A fake library\<close>

text \<open>
  A small library to run the bridge on. Its state is the number of tokens in the KV
  cache. One model file exists; a context holds 8 tokens and decoding fails when the
  cache would be full; the tokenizer makes one token of each byte; the sampler returns the
  cache size as the next token; token 5 ends the generation.
\<close>

definition fake_piece :: "llama_token \<Rightarrow> string" where
  "fake_piece t = (if t = 2 then ''a'' else if t = 3 then ''<|im_''
                   else if t = 4 then ''end|>x'' else if t = 6 then ''b'' else ''c'')"

definition fake_api :: "nat llama_api" where
  "fake_api = \<lparr>
     llama_backend_init = (\<lambda>w. w),
     llama_backend_free = (\<lambda>w. w),
     llama_model_load_from_file =
       (\<lambda>path w. (if path = ''qwen.gguf'' then 11 else nullptr, w)),
     llama_model_free = (\<lambda>m w. w),
     llama_model_get_vocab = (\<lambda>m. 12),
     llama_init_from_model = (\<lambda>m p w. (if n_ctx p = 0 then nullptr else 13, 0)),
     llama_free = (\<lambda>c w. 0),
     llama_get_memory = (\<lambda>c w. 14),
     llama_memory_clear = (\<lambda>mem d w. 0),
     llama_n_ctx = (\<lambda>c w. 8),
     tokenize_text = (\<lambda>v text a p. map (\<lambda>ch. int (of_char ch)) text),
     llama_decode =
       (\<lambda>c toks w. if w + length toks < 8 then (0, w + length toks) else (1, w)),
     llama_sampler_chain_init = (\<lambda>w. (21, w)),
     llama_sampler_init_temp = (\<lambda>t w. (22, w)),
     llama_sampler_init_dist = (\<lambda>seed w. (23, w)),
     llama_sampler_chain_add = (\<lambda>chain smpl w. w),
     llama_sampler_sample = (\<lambda>smpl c idx w. (int w, w)),
     llama_sampler_free = (\<lambda>smpl w. w),
     llama_vocab_eos = (\<lambda>v. 5),
     llama_vocab_is_eog = (\<lambda>v t. t = 5),
     llama_token_to_piece = (\<lambda>v t len lstrip special.
        if length (fake_piece t) \<le> len then (int (length (fake_piece t)), fake_piece t)
        else (- int (length (fake_piece t)), [])),
     LLAMA_DEFAULT_SEED = 0xFFFFFFFF
   \<rparr>"


definition fake_initial :: "nat state" where
  "fake_initial = \<lparr>g_llama = g_initial, world = 0, calls = []\<rparr>"

text \<open>The state after \<open>loadModel("qwen.gguf", 4, 8)\<close> from the initial state.\<close>

definition fake_loaded :: "nat state" where
  "fake_loaded =
     \<lparr>g_llama = \<lparr>model = 11, ctx = 13, vocab = 12, is_loaded = True\<rparr>,
      world = 0,
      calls = [Model_Load_From_File ''qwen.gguf'' 11, Model_Get_Vocab 11 12,
               Init_From_Model 11 \<lparr>n_ctx = 8, n_threads = 4, n_threads_batch = 4\<rparr> 13]\<rparr>"

section \<open>Properties\<close>

subsection \<open>The call list\<close>

lemma sample_of_simps [simp]:
  "sample_of Backend_Init = []"
  "sample_of Backend_Free = []"
  "sample_of (Model_Load_From_File path m) = []"
  "sample_of (Model_Free m) = []"
  "sample_of (Model_Get_Vocab m v) = []"
  "sample_of (Init_From_Model m p c) = []"
  "sample_of (Free c) = []"
  "sample_of (Get_Memory c mem) = []"
  "sample_of (Memory_Clear mem d) = []"
  "sample_of (N_Ctx c k) = []"
  "sample_of (Tokenize v text k a b n) = []"
  "sample_of (Decode c ts rc) = []"
  "sample_of (Sampler_Chain_Init smpl) = []"
  "sample_of (Sampler_Init_Temp tmp smpl) = []"
  "sample_of (Sampler_Init_Dist seed smpl) = []"
  "sample_of (Sampler_Chain_Add chain smpl) = []"
  "sample_of (Sampler_Sample smpl c idx t) = [t]"
  "sample_of (Sampler_Free smpl) = []"
  "sample_of (Vocab_Eos v t) = []"
  "sample_of (Vocab_Is_Eog v t b) = []"
  "sample_of (Token_To_Piece v t len lstrip special n) = []"
  by (simp_all add: sample_of_def)

lemma piece_of_simps [simp]:
  "piece_of Backend_Init = []"
  "piece_of Backend_Free = []"
  "piece_of (Model_Load_From_File path m) = []"
  "piece_of (Model_Free m) = []"
  "piece_of (Model_Get_Vocab m v) = []"
  "piece_of (Init_From_Model m p c) = []"
  "piece_of (Free c) = []"
  "piece_of (Get_Memory c mem) = []"
  "piece_of (Memory_Clear mem d) = []"
  "piece_of (N_Ctx c k) = []"
  "piece_of (Tokenize v text k a b n) = []"
  "piece_of (Decode c ts rc) = []"
  "piece_of (Sampler_Chain_Init smpl) = []"
  "piece_of (Sampler_Init_Temp tmp smpl) = []"
  "piece_of (Sampler_Init_Dist seed smpl) = []"
  "piece_of (Sampler_Chain_Add chain smpl) = []"
  "piece_of (Sampler_Sample smpl c idx t) = []"
  "piece_of (Sampler_Free smpl) = []"
  "piece_of (Vocab_Eos v t) = []"
  "piece_of (Vocab_Is_Eog v t b) = []"
  "piece_of (Token_To_Piece v t len lstrip special n) = [t]"
  by (simp_all add: piece_of_def)

lemma decode_failed_simps [simp]:
  "decode_failed Backend_Init = False"
  "decode_failed Backend_Free = False"
  "decode_failed (Model_Load_From_File path m) = False"
  "decode_failed (Model_Free m) = False"
  "decode_failed (Model_Get_Vocab m v) = False"
  "decode_failed (Init_From_Model m p c) = False"
  "decode_failed (Free c) = False"
  "decode_failed (Get_Memory c mem) = False"
  "decode_failed (Memory_Clear mem d) = False"
  "decode_failed (N_Ctx c k) = False"
  "decode_failed (Tokenize v text k a b n) = False"
  "decode_failed (Decode c ts rc) = (rc \<noteq> 0)"
  "decode_failed (Sampler_Chain_Init smpl) = False"
  "decode_failed (Sampler_Init_Temp tmp smpl) = False"
  "decode_failed (Sampler_Init_Dist seed smpl) = False"
  "decode_failed (Sampler_Chain_Add chain smpl) = False"
  "decode_failed (Sampler_Sample smpl c idx t) = False"
  "decode_failed (Sampler_Free smpl) = False"
  "decode_failed (Vocab_Eos v t) = False"
  "decode_failed (Vocab_Is_Eog v t b) = False"
  "decode_failed (Token_To_Piece v t len lstrip special n) = False"
  by (simp_all add: decode_failed_def)

lemma is_decode_simps [simp]:
  "is_decode Backend_Init = False"
  "is_decode Backend_Free = False"
  "is_decode (Model_Load_From_File path m) = False"
  "is_decode (Model_Free m) = False"
  "is_decode (Model_Get_Vocab m v) = False"
  "is_decode (Init_From_Model m p c) = False"
  "is_decode (Free c) = False"
  "is_decode (Get_Memory c mem) = False"
  "is_decode (Memory_Clear mem d) = False"
  "is_decode (N_Ctx c k) = False"
  "is_decode (Tokenize v text k a b n) = False"
  "is_decode (Decode c ts rc) = True"
  "is_decode (Sampler_Chain_Init smpl) = False"
  "is_decode (Sampler_Init_Temp tmp smpl) = False"
  "is_decode (Sampler_Init_Dist seed smpl) = False"
  "is_decode (Sampler_Chain_Add chain smpl) = False"
  "is_decode (Sampler_Sample smpl c idx t) = False"
  "is_decode (Sampler_Free smpl) = False"
  "is_decode (Vocab_Eos v t) = False"
  "is_decode (Vocab_Is_Eog v t b) = False"
  "is_decode (Token_To_Piece v t len lstrip special n) = False"
  by (simp_all add: is_decode_def)

lemma is_memory_clear_simps [simp]:
  "is_memory_clear Backend_Init = False"
  "is_memory_clear Backend_Free = False"
  "is_memory_clear (Model_Load_From_File path m) = False"
  "is_memory_clear (Model_Free m) = False"
  "is_memory_clear (Model_Get_Vocab m v) = False"
  "is_memory_clear (Init_From_Model m p c) = False"
  "is_memory_clear (Free c) = False"
  "is_memory_clear (Get_Memory c mem) = False"
  "is_memory_clear (Memory_Clear mem d) = True"
  "is_memory_clear (N_Ctx c k) = False"
  "is_memory_clear (Tokenize v text k a b n) = False"
  "is_memory_clear (Decode c ts rc) = False"
  "is_memory_clear (Sampler_Chain_Init smpl) = False"
  "is_memory_clear (Sampler_Init_Temp tmp smpl) = False"
  "is_memory_clear (Sampler_Init_Dist seed smpl) = False"
  "is_memory_clear (Sampler_Chain_Add chain smpl) = False"
  "is_memory_clear (Sampler_Sample smpl c idx t) = False"
  "is_memory_clear (Sampler_Free smpl) = False"
  "is_memory_clear (Vocab_Eos v t) = False"
  "is_memory_clear (Vocab_Is_Eog v t b) = False"
  "is_memory_clear (Token_To_Piece v t len lstrip special n) = False"
  by (simp_all add: is_memory_clear_def)

lemma is_lifecycle_simps [simp]:
  "is_lifecycle Backend_Init = False"
  "is_lifecycle Backend_Free = False"
  "is_lifecycle (Model_Load_From_File path m) = True"
  "is_lifecycle (Model_Free m) = True"
  "is_lifecycle (Model_Get_Vocab m v) = False"
  "is_lifecycle (Init_From_Model m p c) = True"
  "is_lifecycle (Free c) = True"
  "is_lifecycle (Get_Memory c mem) = False"
  "is_lifecycle (Memory_Clear mem d) = False"
  "is_lifecycle (N_Ctx c k) = False"
  "is_lifecycle (Tokenize v text k a b n) = False"
  "is_lifecycle (Decode c ts rc) = False"
  "is_lifecycle (Sampler_Chain_Init smpl) = False"
  "is_lifecycle (Sampler_Init_Temp tmp smpl) = False"
  "is_lifecycle (Sampler_Init_Dist seed smpl) = False"
  "is_lifecycle (Sampler_Chain_Add chain smpl) = False"
  "is_lifecycle (Sampler_Sample smpl c idx t) = False"
  "is_lifecycle (Sampler_Free smpl) = False"
  "is_lifecycle (Vocab_Eos v t) = False"
  "is_lifecycle (Vocab_Is_Eog v t b) = False"
  "is_lifecycle (Token_To_Piece v t len lstrip special n) = False"
  by (simp_all add: is_lifecycle_def)

lemma sampled_simps [simp]:
  "sampled [] = []"
  "sampled (e # evs) = sample_of e @ sampled evs"
  "sampled (evs @ evs') = sampled evs @ sampled evs'"
  by (simp_all add: sampled_def)

lemma detokenized_simps [simp]:
  "detokenized [] = []"
  "detokenized (e # evs) = piece_of e @ detokenized evs"
  "detokenized (evs @ evs') = detokenized evs @ detokenized evs'"
  by (simp_all add: detokenized_def)

lemma new_calls_append: "calls s' = calls s @ evs \<Longrightarrow> new_calls s s' = evs"
  by (simp add: new_calls_def)

subsection \<open>std::string::find\<close>

lemma str_find_Some:
  "str_find s pat = Some p \<Longrightarrow> occurs_at pat s p \<and> (\<forall>q<p. \<not> occurs_at pat s q)"
proof (induction s arbitrary: p)
  case Nil
  then show ?case by (simp add: occurs_at_def split: if_splits)
next
  case (Cons x xs)
  show ?case
  proof (cases "take (length pat) (x # xs) = pat")
    case True
    then have "length (take (length pat) (x # xs)) = length pat"
      by simp
    then have "length pat \<le> length (x # xs)"
      by (simp del: take_Suc_Cons take_Cons')
    with True Cons.prems show ?thesis by (simp add: occurs_at_def)
  next
    case False
    with Cons.prems obtain p' where p': "str_find xs pat = Some p'" "p = Suc p'"
      by auto
    from Cons.IH [OF p'(1)] have ih: "occurs_at pat xs p'" "\<forall>q<p'. \<not> occurs_at pat xs q"
      by simp_all
    have "occurs_at pat (x # xs) (Suc p')"
      using ih(1) by (simp add: occurs_at_def)
    moreover have "\<not> occurs_at pat (x # xs) q" if "q < Suc p'" for q
    proof (cases q)
      case 0
      with False show ?thesis by (simp add: occurs_at_def)
    next
      case (Suc q')
      with that ih(2) show ?thesis by (simp add: occurs_at_def)
    qed
    ultimately show ?thesis using p'(2) by simp
  qed
qed

lemma str_find_None: "str_find s pat = None \<Longrightarrow> \<not> occurs_at pat s q"
proof (induction s arbitrary: q)
  case Nil
  then show ?case by (simp add: occurs_at_def split: if_splits)
next
  case (Cons x xs)
  then have no: "take (length pat) (x # xs) \<noteq> pat" and rest: "str_find xs pat = None"
    by (simp_all split: if_splits)
  show ?case
  proof (cases q)
    case 0
    with no show ?thesis by (simp add: occurs_at_def)
  next
    case (Suc q')
    with Cons.IH [OF rest, of q'] show ?thesis by (simp add: occurs_at_def)
  qed
qed

lemma str_find_empty_text [simp]: "str_find [] im_end = None"
  by (simp add: im_end_def)

subsection \<open>The sampling loop\<close>

lemma gen_body_cases:
  assumes "gen_body api v c smp (r, s) = (cont, r', s')"
  obtains
    (eog) t where "llama_vocab_is_eog api v t" "\<not> cont" "r' = r"
      "calls s' = calls s @ [Sampler_Sample smp c (- 1) t, Vocab_Is_Eog v t True]"
      "g_llama s' = g_llama s"
  | (marker) t n pos where "\<not> llama_vocab_is_eog api v t"
      "str_find (r @ token_text api v t) im_end = Some pos" "\<not> cont"
      "r' = take pos (r @ token_text api v t)"
      "calls s' = calls s @ [Sampler_Sample smp c (- 1) t, Vocab_Is_Eog v t False,
                             Token_To_Piece v t 256 0 True n]"
      "g_llama s' = g_llama s"
  | (failed) t n rc where "\<not> llama_vocab_is_eog api v t"
      "str_find (r @ token_text api v t) im_end = None" "\<not> cont" "rc \<noteq> 0"
      "r' = r @ token_text api v t"
      "calls s' = calls s @ [Sampler_Sample smp c (- 1) t, Vocab_Is_Eog v t False,
                             Token_To_Piece v t 256 0 True n, Decode c [t] rc]"
      "g_llama s' = g_llama s"
  | (decoded) t n where "\<not> llama_vocab_is_eog api v t"
      "str_find (r @ token_text api v t) im_end = None" "cont"
      "r' = r @ token_text api v t"
      "calls s' = calls s @ [Sampler_Sample smp c (- 1) t, Vocab_Is_Eog v t False,
                             Token_To_Piece v t 256 0 True n, Decode c [t] 0]"
      "g_llama s' = g_llama s"
proof -
  obtain t w1 where smp: "llama_sampler_sample api smp c (- 1) (world s) = (t, w1)"
    by (cases "llama_sampler_sample api smp c (- 1) (world s)")
  obtain rc w4 where dec: "llama_decode api c [t] w1 = (rc, w4)"
    by (cases "llama_decode api c [t] w1")
  show ?thesis
  proof (cases "llama_vocab_is_eog api v t")
    case True
    with assms smp show ?thesis
      by (intro eog [of t]) (auto simp add: gen_body_def lib_call_def Let_def)
  next
    case noeog: False
    show ?thesis
    proof (cases "str_find (r @ token_text api v t) im_end")
      case (Some pos)
      with assms smp noeog show ?thesis
        by (intro marker [of t pos]) (auto simp add: gen_body_def lib_call_def Let_def substr_def)
    next
      case None
      show ?thesis
      proof (cases "rc = 0")
        case True
        with assms smp noeog None dec show ?thesis
          by (intro decoded [of t]) (auto simp add: gen_body_def lib_call_def Let_def)
      next
        case False
        with assms smp noeog None dec show ?thesis
          by (intro failed [of t rc]) (auto simp add: gen_body_def lib_call_def Let_def)
      qed
    qed
  qed
qed


text \<open>Induction over a run of the loop: the exit, the three ways the body breaks out,
  and the pass that decodes the token and goes on.\<close>

lemma gen_loop_run [consumes 1, case_names exit eog marker failed decoded]:
  assumes run: "gen_loop api v c smp mx i (r, s) = (r', s')"
    and exit: "\<And>i r s. \<not> i < mx \<Longrightarrow> P i r s r s"
    and eog: "\<And>i r s t s1. i < mx \<Longrightarrow> llama_vocab_is_eog api v t \<Longrightarrow>
        calls s1 = calls s @ [Sampler_Sample smp c (- 1) t, Vocab_Is_Eog v t True] \<Longrightarrow>
        g_llama s1 = g_llama s \<Longrightarrow> P i r s r s1"
    and marker: "\<And>i r s t n pos s1. i < mx \<Longrightarrow> \<not> llama_vocab_is_eog api v t \<Longrightarrow>
        str_find (r @ token_text api v t) im_end = Some pos \<Longrightarrow>
        calls s1 = calls s @ [Sampler_Sample smp c (- 1) t, Vocab_Is_Eog v t False,
                              Token_To_Piece v t 256 0 True n] \<Longrightarrow>
        g_llama s1 = g_llama s \<Longrightarrow> P i r s (take pos (r @ token_text api v t)) s1"
    and failed: "\<And>i r s t n rc s1. i < mx \<Longrightarrow> \<not> llama_vocab_is_eog api v t \<Longrightarrow>
        str_find (r @ token_text api v t) im_end = None \<Longrightarrow> rc \<noteq> 0 \<Longrightarrow>
        calls s1 = calls s @ [Sampler_Sample smp c (- 1) t, Vocab_Is_Eog v t False,
                              Token_To_Piece v t 256 0 True n, Decode c [t] rc] \<Longrightarrow>
        g_llama s1 = g_llama s \<Longrightarrow> P i r s (r @ token_text api v t) s1"
    and decoded: "\<And>i r s t n s1 r' s'. i < mx \<Longrightarrow> \<not> llama_vocab_is_eog api v t \<Longrightarrow>
        str_find (r @ token_text api v t) im_end = None \<Longrightarrow>
        calls s1 = calls s @ [Sampler_Sample smp c (- 1) t, Vocab_Is_Eog v t False,
                              Token_To_Piece v t 256 0 True n, Decode c [t] 0] \<Longrightarrow>
        g_llama s1 = g_llama s \<Longrightarrow>
        gen_loop api v c smp mx (i + 1) (r @ token_text api v t, s1) = (r', s') \<Longrightarrow>
        P (i + 1) (r @ token_text api v t) s1 r' s' \<Longrightarrow> P i r s r' s'"
  shows "P i r s r' s'"
  using run
proof (induction "nat (mx - i)" arbitrary: i r s)
  case 0
  then have "\<not> i < mx" by simp
  with "0.prems" show ?case
    by (auto simp add: gen_loop.simps intro: exit)
next
  case (Suc k)
  then have lt: "i < mx" and k: "k = nat (mx - (i + 1))" by simp_all
  obtain cont r1 s1 where body: "gen_body api v c smp (r, s) = (cont, r1, s1)"
    by (cases "gen_body api v c smp (r, s)")
  from body show ?case
  proof (cases rule: gen_body_cases)
    case (eog t)
    with Suc.prems lt body have eq: "r' = r" "s' = s1"
      by (simp_all add: gen_loop.simps)
    have "P i r s r s1"
      by (rule assms(3) [OF lt eog(1) eog(4) eog(5)])
    then show ?thesis by (simp only: eq)
  next
    case (marker t n pos)
    with Suc.prems lt body have eq: "r' = take pos (r @ token_text api v t)" "s' = s1"
      by (simp_all add: gen_loop.simps)
    have "P i r s (take pos (r @ token_text api v t)) s1"
      by (rule assms(4) [OF lt marker(1) marker(2) marker(5) marker(6)])
    then show ?thesis by (simp only: eq)
  next
    case (failed t n rc)
    with Suc.prems lt body have eq: "r' = r @ token_text api v t" "s' = s1"
      by (simp_all add: gen_loop.simps)
    have "P i r s (r @ token_text api v t) s1"
      by (rule assms(5) [OF lt failed(1) failed(2) failed(4) failed(6) failed(7)])
    then show ?thesis by (simp only: eq)
  next
    case (decoded t n)
    with Suc.prems lt body
    have rec: "gen_loop api v c smp mx (i + 1) (r @ token_text api v t, s1) = (r', s')"
      by (simp add: gen_loop.simps)
    have "P (i + 1) (r @ token_text api v t) s1 r' s'"
      by (rule Suc.hyps(1) [OF k rec])
    then show ?thesis
      by (rule assms(6) [OF lt decoded(1) decoded(2) decoded(5) decoded(6) rec])
  qed
qed

lemma gen_loop_extends:
  assumes "gen_loop api v c smp mx i (r, s) = (r', s')"
  shows "calls s' = calls s @ new_calls s s' \<and> g_llama s' = g_llama s"
  using assms
proof (induction rule: gen_loop_run)
  case (decoded i r s t n s1 r' s')
  then have "calls s' = calls s @ ([Sampler_Sample smp c (- 1) t, Vocab_Is_Eog v t False,
      Token_To_Piece v t 256 0 True n, Decode c [t] 0] @ new_calls s1 s')"
    by simp
  from this new_calls_append [OF this] decoded show ?case
    by (simp only:)
qed (simp_all add: new_calls_def)

lemma new_calls_trans:
  "calls s1 = calls s @ evs \<Longrightarrow> calls s' = calls s1 @ new_calls s1 s' \<Longrightarrow>
   new_calls s s' = evs @ new_calls s1 s'"
  by (rule new_calls_append) simp

lemma gen_loop_samples:
  assumes "gen_loop api v c smp mx i (r, s) = (r', s')"
  shows "length (sampled (new_calls s s')) \<le> nat (mx - i) \<and>
     (\<forall>k<length (sampled (new_calls s s')).
         llama_vocab_is_eog api v (sampled (new_calls s s') ! k) \<longrightarrow>
         Suc k = length (sampled (new_calls s s')) \<and>
         r' = r @ concat (map (token_text api v) (take k (sampled (new_calls s s')))))"
  using assms
proof (induction rule: gen_loop_run)
  case (exit i r s)
  then show ?case by (simp add: new_calls_def)
next
  case (eog i r s t s1)
  then show ?case by (simp add: new_calls_append [OF eog(3)])
next
  case (marker i r s t n pos s1)
  then show ?case by (simp add: new_calls_append [OF marker(4)])
next
  case (failed i r s t n rc s1)
  then show ?case by (simp add: new_calls_append [OF failed(5)])
next
  case (decoded i r s t n s1 r' s')
  have nc: "new_calls s s' = [Sampler_Sample smp c (- 1) t, Vocab_Is_Eog v t False,
      Token_To_Piece v t 256 0 True n, Decode c [t] 0] @ new_calls s1 s'"
    using gen_loop_extends [OF decoded.hyps(6)] decoded.hyps(4)
    by (intro new_calls_trans) simp_all
  let ?ts = "sampled (new_calls s1 s')"
  have smp: "sampled (new_calls s s') = t # ?ts"
    by (simp add: nc)
  from decoded.IH have len: "length ?ts \<le> nat (mx - (i + 1))"
    and ih: "\<And>k. k < length ?ts \<Longrightarrow> llama_vocab_is_eog api v (?ts ! k) \<Longrightarrow>
          Suc k = length ?ts \<and>
          r' = (r @ token_text api v t) @ concat (map (token_text api v) (take k ?ts))"
    by simp_all
  have "length (t # ?ts) \<le> nat (mx - i)"
    using len decoded.hyps(1) by simp
  moreover have "Suc k = length (t # ?ts) \<and>
        r' = r @ concat (map (token_text api v) (take k (t # ?ts)))"
    if k: "k < length (t # ?ts)" and e: "llama_vocab_is_eog api v ((t # ?ts) ! k)" for k
  proof (cases k)
    case 0
    with e decoded.hyps(2) show ?thesis by simp
  next
    case (Suc j)
    with k e have "j < length ?ts" "llama_vocab_is_eog api v (?ts ! j)" by simp_all
    from ih [OF this] have "length ?ts = Suc j"
      and "r' = (r @ token_text api v t) @ concat (map (token_text api v) (take j ?ts))"
      by simp_all
    then show ?thesis by (simp add: Suc)
  qed
  ultimately show ?case unfolding smp by blast
qed

lemma gen_loop_marker:
  assumes "gen_loop api v c smp mx i (r, s) = (r', s')"
    and "str_find r im_end = None"
  shows "(case str_find (r @ concat (map (token_text api v) (detokenized (new_calls s s'))))
               im_end of
            None \<Rightarrow> r' = r @ concat (map (token_text api v) (detokenized (new_calls s s')))
          | Some p \<Rightarrow>
              r' = take p (r @ concat (map (token_text api v) (detokenized (new_calls s s'))))
              \<and> (\<exists>pre t n. new_calls s s' = pre @ [Token_To_Piece v t 256 0 True n]))"
  using assms
proof (induction rule: gen_loop_run)
  case (exit i r s)
  then show ?case by (simp add: new_calls_def)
next
  case (eog i r s t s1)
  then show ?case by (simp add: new_calls_append [OF eog(3)])
next
  case (marker i r s t n pos s1)
  have "\<exists>pre t' n'. [Sampler_Sample smp c (- 1) t, Vocab_Is_Eog v t False,
           Token_To_Piece v t 256 0 True n] = pre @ [Token_To_Piece v t' 256 0 True n']"
    by (intro exI [of _ "[Sampler_Sample smp c (- 1) t, Vocab_Is_Eog v t False]"]) simp
  with marker show ?case by (simp add: new_calls_append [OF marker(4)])
next
  case (failed i r s t n rc s1)
  then show ?case by (simp add: new_calls_append [OF failed(5)])
next
  case (decoded i r s t n s1 r' s')
  let ?head = "[Sampler_Sample smp c (- 1) t, Vocab_Is_Eog v t False,
      Token_To_Piece v t 256 0 True n, Decode c [t] 0]"
  have nc: "new_calls s s' = ?head @ new_calls s1 s'"
    using gen_loop_extends [OF decoded.hyps(6)] decoded.hyps(4)
    by (intro new_calls_trans) simp_all
  have "\<exists>pre' t' n'. ?head @ pre @ [Token_To_Piece v t1 256 0 True n1]
          = pre' @ [Token_To_Piece v t' 256 0 True n']" for pre t1 n1
    by (intro exI [of _ "?head @ pre"]) simp
  with decoded.IH [OF decoded.hyps(3)] show ?case
    unfolding nc by (auto split: option.splits)
qed

lemma gen_loop_marker_stop:
  assumes "gen_loop api v c smp mx i (r, s) = (r', s')"
    and "str_find r im_end = None"
    and "str_find (r @ concat (map (token_text api v) (detokenized (new_calls s s')))) im_end
           = Some p"
  shows "\<exists>pre t n. new_calls s s' = pre @ [Token_To_Piece v t 256 0 True n]
           \<and> str_find (r @ concat (map (token_text api v) (detokenized pre))) im_end = None
           \<and> sampled (new_calls s s') = detokenized (new_calls s s')"
  using assms
proof (induction rule: gen_loop_run)
  case (exit i r s)
  then show ?case by (simp add: new_calls_def)
next
  case (eog i r s t s1)
  then show ?case by (simp add: new_calls_append [OF eog(3)])
next
  case (marker i r s t n pos s1)
  let ?pre = "[Sampler_Sample smp c (- 1) t, Vocab_Is_Eog v t False]"
  have nc: "new_calls s s1 = ?pre @ [Token_To_Piece v t 256 0 True n]"
    by (rule new_calls_append) (simp add: marker(4))
  have "str_find (r @ concat (map (token_text api v) (detokenized ?pre))) im_end = None"
    using marker.prems(1) by simp
  moreover have "sampled (new_calls s s1) = detokenized (new_calls s s1)"
    unfolding nc by simp
  ultimately show ?case using nc by blast
next
  case (failed i r s t n rc s1)
  then show ?case by (simp add: new_calls_append [OF failed(5)])
next
  case (decoded i r s t n s1 r' s')
  let ?head = "[Sampler_Sample smp c (- 1) t, Vocab_Is_Eog v t False,
      Token_To_Piece v t 256 0 True n, Decode c [t] 0]"
  have nc: "new_calls s s' = ?head @ new_calls s1 s'"
    using gen_loop_extends [OF decoded.hyps(6)] decoded.hyps(4)
    by (intro new_calls_trans) simp_all
  from decoded.prems(2)
  have "str_find ((r @ token_text api v t)
          @ concat (map (token_text api v) (detokenized (new_calls s1 s')))) im_end = Some p"
    unfolding nc by simp
  from decoded.IH [OF decoded.hyps(3) this] obtain pre t1 n1 where
    ih: "new_calls s1 s' = pre @ [Token_To_Piece v t1 256 0 True n1]"
      "str_find ((r @ token_text api v t)
          @ concat (map (token_text api v) (detokenized pre))) im_end = None"
      "sampled (new_calls s1 s') = detokenized (new_calls s1 s')"
    by blast
  have "new_calls s s' = (?head @ pre) @ [Token_To_Piece v t1 256 0 True n1]"
    unfolding nc ih(1) by simp
  moreover have "str_find (r @ concat (map (token_text api v) (detokenized (?head @ pre))))
      im_end = None"
    using ih(2) by simp
  moreover have "sampled (new_calls s s') = detokenized (new_calls s s')"
    unfolding nc using ih(3) by simp
  ultimately show ?case by blast
qed


lemma gen_loop_decode:
  assumes "gen_loop api v c smp mx i (r, s) = (r', s')"
    and "\<exists>e\<in>set (new_calls s s'). decode_failed e"
  shows "(\<exists>pre rc. new_calls s s' = pre @ [Decode c [last (sampled (new_calls s s'))] rc]
                   \<and> rc \<noteq> 0)
         \<and> sampled (new_calls s s') \<noteq> []
         \<and> detokenized (new_calls s s') = sampled (new_calls s s')
         \<and> r' = r @ concat (map (token_text api v) (sampled (new_calls s s')))"
  using assms
proof (induction rule: gen_loop_run)
  case (exit i r s)
  then show ?case by (simp add: new_calls_def)
next
  case (eog i r s t s1)
  then show ?case by (simp add: new_calls_append [OF eog(3)])
next
  case (marker i r s t n pos s1)
  then show ?case by (simp add: new_calls_append [OF marker(4)])
next
  case (failed i r s t n rc s1)
  have "\<exists>pre rc'. [Sampler_Sample smp c (- 1) t, Vocab_Is_Eog v t False,
           Token_To_Piece v t 256 0 True n, Decode c [t] rc] = pre @ [Decode c [t] rc']
           \<and> rc' \<noteq> 0"
    using failed(4)
    by (intro exI [of _ "[Sampler_Sample smp c (- 1) t, Vocab_Is_Eog v t False,
           Token_To_Piece v t 256 0 True n]"]) simp
  then show ?case by (simp add: new_calls_append [OF failed(5)])
next
  case (decoded i r s t n s1 r' s')
  let ?head = "[Sampler_Sample smp c (- 1) t, Vocab_Is_Eog v t False,
      Token_To_Piece v t 256 0 True n, Decode c [t] 0]"
  have nc: "new_calls s s' = ?head @ new_calls s1 s'"
    using gen_loop_extends [OF decoded.hyps(6)] decoded.hyps(4)
    by (intro new_calls_trans) simp_all
  from decoded.prems have "\<exists>e\<in>set (new_calls s1 s'). decode_failed e"
    unfolding nc by simp
  from decoded.IH [OF this] obtain pre rc1 where
    ih: "new_calls s1 s' = pre @ [Decode c [last (sampled (new_calls s1 s'))] rc1]" "rc1 \<noteq> 0"
      "sampled (new_calls s1 s') \<noteq> []"
      "detokenized (new_calls s1 s') = sampled (new_calls s1 s')"
      "r' = (r @ token_text api v t) @ concat (map (token_text api v) (sampled (new_calls s1 s')))"
    by blast
  have smp: "sampled (new_calls s s') = t # sampled (new_calls s1 s')"
    unfolding nc by simp
  have "new_calls s s' = (?head @ pre) @ [Decode c [last (sampled (new_calls s s'))] rc1]"
    unfolding smp using ih(1) ih(3) nc by simp
  with ih(2)
  have "\<exists>pre rc. new_calls s s' = pre @ [Decode c [last (sampled (new_calls s s'))] rc]
          \<and> rc \<noteq> 0"
    by blast
  moreover have "sampled (new_calls s s') \<noteq> []"
    unfolding smp by simp
  moreover have "detokenized (new_calls s s') = sampled (new_calls s s')"
    unfolding nc using ih(4) by simp
  moreover have "r' = r @ concat (map (token_text api v) (sampled (new_calls s s')))"
    unfolding nc using ih(5) by simp
  ultimately show ?case by blast
qed

lemma gen_loop_quiet:
  assumes "gen_loop api v c smp mx i (r, s) = (r', s')"
  shows "\<forall>e\<in>set (new_calls s s'). \<not> is_lifecycle e \<and> \<not> is_memory_clear e"
  using assms
proof (induction rule: gen_loop_run)
  case (exit i r s)
  then show ?case by (simp add: new_calls_def)
next
  case (eog i r s t s1)
  then show ?case
    by (simp add: new_calls_append [OF eog(3)])
next
  case (marker i r s t n pos s1)
  then show ?case
    by (simp add: new_calls_append [OF marker(4)])
next
  case (failed i r s t n rc s1)
  then show ?case
    by (simp add: new_calls_append [OF failed(5)])
next
  case (decoded i r s t n s1 r' s')
  have nc: "new_calls s s' = [Sampler_Sample smp c (- 1) t, Vocab_Is_Eog v t False,
      Token_To_Piece v t 256 0 True n, Decode c [t] 0] @ new_calls s1 s'"
    using gen_loop_extends [OF decoded.hyps(6)] decoded.hyps(4)
    by (intro new_calls_trans) simp_all
  from decoded.IH show ?case
    unfolding nc by simp
qed

lemma gen_loop_no_pass:
  "max_gen \<le> i \<Longrightarrow> gen_loop api v c smp max_gen i rs = rs"
  by (simp add: gen_loop.simps)

subsection \<open>nativeGenerate\<close>

lemma clear_kv_simps:
  "calls (clear_kv api s) =
     calls s @ Get_Memory (ctx (g_llama s)) (llama_get_memory api (ctx (g_llama s)) (world s))
       # (if llama_get_memory api (ctx (g_llama s)) (world s) \<noteq> nullptr
          then [Memory_Clear (llama_get_memory api (ctx (g_llama s)) (world s)) True] else [])"
  "g_llama (clear_kv api s) = g_llama s"
  "world (clear_kv api s) =
     (if llama_get_memory api (ctx (g_llama s)) (world s) \<noteq> nullptr
      then llama_memory_clear api (llama_get_memory api (ctx (g_llama s)) (world s)) True (world s)
      else world s)"
  by (simp_all add: clear_kv_def lib_call_def Let_def)

text \<open>The three ways through nativeGenerate once the engine is loaded: the prompt does
  not fit, the prefill fails, or the sampling loop runs.\<close>

lemma nativeGenerate_cases:
  assumes loaded: "is_loaded (g_llama s)" "ctx (g_llama s) \<noteq> nullptr" "model (g_llama s) \<noteq> nullptr"
    and gen: "nativeGenerate api prompt maxTokens temperature s = (out, s')"
  obtains
    (overflow)
      "llama_n_ctx api (ctx (g_llama s)) (world (clear_kv api s))
         < length (tokenize_text api (vocab (g_llama s)) (jstring_to_string prompt) True True)"
      "out = []"
      "calls s' = calls (clear_kv api s) @
         [N_Ctx (ctx (g_llama s)) (llama_n_ctx api (ctx (g_llama s)) (world (clear_kv api s))),
          Tokenize (vocab (g_llama s)) (jstring_to_string prompt)
            (llama_n_ctx api (ctx (g_llama s)) (world (clear_kv api s))) True True
            (- int (length (tokenize_text api (vocab (g_llama s)) (jstring_to_string prompt) True True)))]"
      "g_llama s' = g_llama s"
  | (prefill_failed) rc w where
      "length (tokenize_text api (vocab (g_llama s)) (jstring_to_string prompt) True True)
         \<le> llama_n_ctx api (ctx (g_llama s)) (world (clear_kv api s))"
      "llama_decode api (ctx (g_llama s))
         (tokenize_text api (vocab (g_llama s)) (jstring_to_string prompt) True True)
         (world (clear_kv api s)) = (rc, w)"
      "rc \<noteq> 0"
      "out = []"
      "calls s' = calls (clear_kv api s) @
         [N_Ctx (ctx (g_llama s)) (llama_n_ctx api (ctx (g_llama s)) (world (clear_kv api s))),
          Tokenize (vocab (g_llama s)) (jstring_to_string prompt)
            (llama_n_ctx api (ctx (g_llama s)) (world (clear_kv api s))) True True
            (int (length (tokenize_text api (vocab (g_llama s)) (jstring_to_string prompt) True True))),
          Decode (ctx (g_llama s))
            (tokenize_text api (vocab (g_llama s)) (jstring_to_string prompt) True True) rc]"
      "g_llama s' = g_llama s"
  | (generated) w smp st sd s10 s11 where
      "length (tokenize_text api (vocab (g_llama s)) (jstring_to_string prompt) True True)
         \<le> llama_n_ctx api (ctx (g_llama s)) (world (clear_kv api s))"
      "llama_decode api (ctx (g_llama s))
         (tokenize_text api (vocab (g_llama s)) (jstring_to_string prompt) True True)
         (world (clear_kv api s)) = (0, w)"
      "calls s10 = calls (clear_kv api s) @
         [N_Ctx (ctx (g_llama s)) (llama_n_ctx api (ctx (g_llama s)) (world (clear_kv api s))),
          Tokenize (vocab (g_llama s)) (jstring_to_string prompt)
            (llama_n_ctx api (ctx (g_llama s)) (world (clear_kv api s))) True True
            (int (length (tokenize_text api (vocab (g_llama s)) (jstring_to_string prompt) True True))),
          Decode (ctx (g_llama s))
            (tokenize_text api (vocab (g_llama s)) (jstring_to_string prompt) True True) 0,
          Sampler_Chain_Init smp, Sampler_Init_Temp temperature st, Sampler_Chain_Add smp st,
          Sampler_Init_Dist (LLAMA_DEFAULT_SEED api) sd, Sampler_Chain_Add smp sd,
          Vocab_Eos (vocab (g_llama s)) (llama_vocab_eos api (vocab (g_llama s)))]"
      "g_llama s10 = g_llama s"
      "gen_loop api (vocab (g_llama s)) (ctx (g_llama s)) smp maxTokens 0 ([], s10) = (out, s11)"
      "calls s' = calls s11 @ [Sampler_Free smp]"
      "g_llama s' = g_llama s11"
proof -
  let ?g = "g_llama s"
  let ?s1 = "clear_kv api s"
  let ?n = "llama_n_ctx api (ctx ?g) (world ?s1)"
  let ?toks = "tokenize_text api (vocab ?g) (jstring_to_string prompt) True True"
  show ?thesis
  proof (cases "length ?toks \<le> ?n")
    case False
    then have "?toks \<noteq> []" by auto
    with False gen loaded show ?thesis
      by (intro overflow)
         (auto simp add: nativeGenerate_def llama_tokenize_def Let_def lib_call_def clear_kv_simps)
  next
    case fits: True
    obtain rc w where dec: "llama_decode api (ctx ?g) ?toks (world ?s1) = (rc, w)"
      by (cases "llama_decode api (ctx ?g) ?toks (world ?s1)")
    show ?thesis
    proof (cases "rc = 0")
      case False
      with gen loaded fits dec show ?thesis
        by (intro prefill_failed)
           (auto simp add: nativeGenerate_def llama_tokenize_def Let_def lib_call_def clear_kv_simps)
    next
      case True
      obtain smp w5 where a: "llama_sampler_chain_init api w = (smp, w5)"
        by (cases "llama_sampler_chain_init api w")
      obtain st w6 where b: "llama_sampler_init_temp api temperature w5 = (st, w6)"
        by (cases "llama_sampler_init_temp api temperature w5")
      obtain sd w8 where d: "llama_sampler_init_dist api (LLAMA_DEFAULT_SEED api)
          (llama_sampler_chain_add api smp st w6) = (sd, w8)"
        by (cases "llama_sampler_init_dist api (LLAMA_DEFAULT_SEED api)
          (llama_sampler_chain_add api smp st w6)")
      define s10 where "s10 = ?s1\<lparr>world := llama_sampler_chain_add api smp sd w8,
         calls := calls ?s1 @
         [N_Ctx (ctx ?g) ?n,
          Tokenize (vocab ?g) (jstring_to_string prompt) ?n True True (int (length ?toks)),
          Decode (ctx ?g) ?toks 0,
          Sampler_Chain_Init smp, Sampler_Init_Temp temperature st, Sampler_Chain_Add smp st,
          Sampler_Init_Dist (LLAMA_DEFAULT_SEED api) sd, Sampler_Chain_Add smp sd,
          Vocab_Eos (vocab ?g) (llama_vocab_eos api (vocab ?g))]\<rparr>"
      obtain out' s11 where lp:
        "gen_loop api (vocab ?g) (ctx ?g) smp maxTokens 0 ([], s10) = (out', s11)"
        by (cases "gen_loop api (vocab ?g) (ctx ?g) smp maxTokens 0 ([], s10)")
      from gen loaded fits dec True a b d lp
      have res: "out = out'"
        "s' = s11\<lparr>world := llama_sampler_free api smp (world s11),
                    calls := calls s11 @ [Sampler_Free smp]\<rparr>"
        by (auto simp add: nativeGenerate_def llama_tokenize_def Let_def lib_call_def s10_def)
      show ?thesis
      proof (rule generated)
        show "length ?toks \<le> ?n" by (rule fits)
        show "llama_decode api (ctx ?g) ?toks (world ?s1) = (0, w)" using dec True by simp
        show "calls s10 = calls ?s1 @
         [N_Ctx (ctx ?g) ?n,
          Tokenize (vocab ?g) (jstring_to_string prompt) ?n True True (int (length ?toks)),
          Decode (ctx ?g) ?toks 0,
          Sampler_Chain_Init smp, Sampler_Init_Temp temperature st, Sampler_Chain_Add smp st,
          Sampler_Init_Dist (LLAMA_DEFAULT_SEED api) sd, Sampler_Chain_Add smp sd,
          Vocab_Eos (vocab ?g) (llama_vocab_eos api (vocab ?g))]"
          by (simp add: s10_def)
        show "g_llama s10 = ?g" by (simp add: s10_def clear_kv_simps)
        show "gen_loop api (vocab ?g) (ctx ?g) smp maxTokens 0 ([], s10) = (out, s11)"
          using lp res(1) by simp
        show "calls s' = calls s11 @ [Sampler_Free smp]" using res(2) by simp
        show "g_llama s' = g_llama s11" using res(2) by simp
      qed
    qed
  qed
qed

lemma new_calls_clear_kv:
  "new_calls s (clear_kv api s) =
     Get_Memory (ctx (g_llama s)) (llama_get_memory api (ctx (g_llama s)) (world s))
       # (if llama_get_memory api (ctx (g_llama s)) (world s) \<noteq> nullptr
          then [Memory_Clear (llama_get_memory api (ctx (g_llama s)) (world s)) True] else [])"
  by (rule new_calls_append) (simp add: clear_kv_simps)

lemma clear_kv_extends: "calls (clear_kv api s) = calls s @ new_calls s (clear_kv api s)"
  by (simp add: new_calls_clear_kv clear_kv_simps)

lemma sampled_clear_kv [simp]: "sampled (new_calls s (clear_kv api s)) = []"
  by (simp add: new_calls_clear_kv)

lemma detokenized_clear_kv [simp]: "detokenized (new_calls s (clear_kv api s)) = []"
  by (simp add: new_calls_clear_kv)

lemma decode_failed_clear_kv [simp]:
  "e \<in> set (new_calls s (clear_kv api s)) \<Longrightarrow> \<not> decode_failed e"
  by (auto simp add: new_calls_clear_kv split: if_splits)

text \<open>The calls of one nativeGenerate on a loaded engine, case by case.\<close>

lemma nativeGenerate_calls:
  assumes loaded: "is_loaded (g_llama s)" "ctx (g_llama s) \<noteq> nullptr" "model (g_llama s) \<noteq> nullptr"
    and gen: "nativeGenerate api prompt maxTokens temperature s = (out, s')"
  obtains
    (overflow) "out = []"
      "llama_n_ctx api (ctx (g_llama s)) (world (clear_kv api s))
         < length (tokenize_text api (vocab (g_llama s)) (jstring_to_string prompt) True True)"
      "new_calls s s' = new_calls s (clear_kv api s) @
         [N_Ctx (ctx (g_llama s)) (llama_n_ctx api (ctx (g_llama s)) (world (clear_kv api s))),
          Tokenize (vocab (g_llama s)) (jstring_to_string prompt)
            (llama_n_ctx api (ctx (g_llama s)) (world (clear_kv api s))) True True
            (- int (length (tokenize_text api (vocab (g_llama s)) (jstring_to_string prompt)
                True True)))]"
  | (prefill_failed) rc where "out = []"
      "length (tokenize_text api (vocab (g_llama s)) (jstring_to_string prompt) True True)
         \<le> llama_n_ctx api (ctx (g_llama s)) (world (clear_kv api s))"
      "rc = fst (llama_decode api (ctx (g_llama s))
         (tokenize_text api (vocab (g_llama s)) (jstring_to_string prompt) True True)
         (world (clear_kv api s)))"
      "rc \<noteq> 0"
      "new_calls s s' = new_calls s (clear_kv api s) @
         [N_Ctx (ctx (g_llama s)) (llama_n_ctx api (ctx (g_llama s)) (world (clear_kv api s))),
          Tokenize (vocab (g_llama s)) (jstring_to_string prompt)
            (llama_n_ctx api (ctx (g_llama s)) (world (clear_kv api s))) True True
            (int (length (tokenize_text api (vocab (g_llama s)) (jstring_to_string prompt) True True))),
          Decode (ctx (g_llama s))
            (tokenize_text api (vocab (g_llama s)) (jstring_to_string prompt) True True) rc]"
  | (generated) smp st sd s10 s11 where
      "length (tokenize_text api (vocab (g_llama s)) (jstring_to_string prompt) True True)
         \<le> llama_n_ctx api (ctx (g_llama s)) (world (clear_kv api s))"
      "fst (llama_decode api (ctx (g_llama s))
         (tokenize_text api (vocab (g_llama s)) (jstring_to_string prompt) True True)
         (world (clear_kv api s))) = 0"
      "gen_loop api (vocab (g_llama s)) (ctx (g_llama s)) smp maxTokens 0 ([], s10) = (out, s11)"
      "new_calls s s' = new_calls s (clear_kv api s) @
         [N_Ctx (ctx (g_llama s)) (llama_n_ctx api (ctx (g_llama s)) (world (clear_kv api s))),
          Tokenize (vocab (g_llama s)) (jstring_to_string prompt)
            (llama_n_ctx api (ctx (g_llama s)) (world (clear_kv api s))) True True
            (int (length (tokenize_text api (vocab (g_llama s)) (jstring_to_string prompt) True True))),
          Decode (ctx (g_llama s))
            (tokenize_text api (vocab (g_llama s)) (jstring_to_string prompt) True True) 0,
          Sampler_Chain_Init smp, Sampler_Init_Temp temperature st, Sampler_Chain_Add smp st,
          Sampler_Init_Dist (LLAMA_DEFAULT_SEED api) sd, Sampler_Chain_Add smp sd,
          Vocab_Eos (vocab (g_llama s)) (llama_vocab_eos api (vocab (g_llama s)))]
         @ new_calls s10 s11 @ [Sampler_Free smp]"
  using loaded gen
proof (cases rule: nativeGenerate_cases)
  case overflow
  show ?thesis
  proof (rule that(1))
    show "new_calls s s' = new_calls s (clear_kv api s) @
         [N_Ctx (ctx (g_llama s)) (llama_n_ctx api (ctx (g_llama s)) (world (clear_kv api s))),
          Tokenize (vocab (g_llama s)) (jstring_to_string prompt)
            (llama_n_ctx api (ctx (g_llama s)) (world (clear_kv api s))) True True
            (- int (length (tokenize_text api (vocab (g_llama s)) (jstring_to_string prompt)
                True True)))]"
      by (rule new_calls_append) (simp add: overflow(3) clear_kv_extends)
  qed (rule overflow)+
next
  case (prefill_failed rc w)
  show ?thesis
  proof (rule that(2) [of rc])
    show "new_calls s s' = new_calls s (clear_kv api s) @
         [N_Ctx (ctx (g_llama s)) (llama_n_ctx api (ctx (g_llama s)) (world (clear_kv api s))),
          Tokenize (vocab (g_llama s)) (jstring_to_string prompt)
            (llama_n_ctx api (ctx (g_llama s)) (world (clear_kv api s))) True True
            (int (length (tokenize_text api (vocab (g_llama s)) (jstring_to_string prompt) True True))),
          Decode (ctx (g_llama s))
            (tokenize_text api (vocab (g_llama s)) (jstring_to_string prompt) True True) rc]"
      by (rule new_calls_append) (simp add: prefill_failed(5) clear_kv_extends)
  qed (simp_all add: prefill_failed)
next
  case (generated w smp st sd s10 s11)
  note ext = gen_loop_extends [OF generated(5)]
  show ?thesis
  proof (rule that(3) [of smp s10 s11 st sd])
    show "new_calls s s' = new_calls s (clear_kv api s) @
         [N_Ctx (ctx (g_llama s)) (llama_n_ctx api (ctx (g_llama s)) (world (clear_kv api s))),
          Tokenize (vocab (g_llama s)) (jstring_to_string prompt)
            (llama_n_ctx api (ctx (g_llama s)) (world (clear_kv api s))) True True
            (int (length (tokenize_text api (vocab (g_llama s)) (jstring_to_string prompt) True True))),
          Decode (ctx (g_llama s))
            (tokenize_text api (vocab (g_llama s)) (jstring_to_string prompt) True True) 0,
          Sampler_Chain_Init smp, Sampler_Init_Temp temperature st, Sampler_Chain_Add smp st,
          Sampler_Init_Dist (LLAMA_DEFAULT_SEED api) sd, Sampler_Chain_Add smp sd,
          Vocab_Eos (vocab (g_llama s)) (llama_vocab_eos api (vocab (g_llama s)))]
         @ new_calls s10 s11 @ [Sampler_Free smp]"
      by (rule new_calls_append)
         (simp add: generated(6) ext [THEN conjunct1] generated(3) clear_kv_extends)
  qed (simp_all add: generated)
qed

subsection \<open>The life cycle\<close>

lemma alive_simps [simp]:
  "alive_models [] = []"
  "alive_ctxs [] = []"
  "alive_models (evs @ [e]) = track_models (alive_models evs) e"
  "alive_ctxs (evs @ [e]) = track_ctxs (alive_ctxs evs) e"
  by (simp_all add: alive_models_def alive_ctxs_def)

lemma track_quiet:
  "\<not> is_lifecycle e \<Longrightarrow> track_models ms e = ms"
  "\<not> is_lifecycle e \<Longrightarrow> track_ctxs cs e = cs"
  by (cases e; simp add: track_models_def track_ctxs_def)+

lemma at_most_one_alive_Nil [simp]: "at_most_one_alive []"
  by (simp add: at_most_one_alive_def)

lemma at_most_one_alive_snoc:
  "at_most_one_alive (evs @ [e]) =
     (at_most_one_alive evs \<and> length (alive_models (evs @ [e])) \<le> 1
                            \<and> length (alive_ctxs (evs @ [e])) \<le> 1)"
proof -
  have split: "{..length (evs @ [e])} = insert (Suc (length evs)) {..length evs}"
    by auto
  have "take n (evs @ [e]) = take n evs" if "n \<le> length evs" for n
    using that by simp
  then show ?thesis
    unfolding at_most_one_alive_def split by auto
qed

lemma at_most_one_alive_now:
  assumes "at_most_one_alive evs"
  shows "length (alive_models evs) \<le> 1 \<and> length (alive_ctxs evs) \<le> 1"
proof -
  have "length evs \<in> {..length evs}" by simp
  with assms have "length (alive_models (take (length evs) evs)) \<le> 1
      \<and> length (alive_ctxs (take (length evs) evs)) \<le> 1"
    unfolding at_most_one_alive_def by blast
  then show ?thesis by simp
qed

lemma alive_append_quiet:
  "\<forall>e\<in>set evs'. \<not> is_lifecycle e \<Longrightarrow>
     alive_models (evs @ evs') = alive_models evs \<and> alive_ctxs (evs @ evs') = alive_ctxs evs
     \<and> at_most_one_alive (evs @ evs') = at_most_one_alive evs"
proof (induction evs' rule: rev_induct)
  case Nil
  then show ?case by simp
next
  case (snoc e evs')
  then have ih: "alive_models (evs @ evs') = alive_models evs"
    "alive_ctxs (evs @ evs') = alive_ctxs evs"
    "at_most_one_alive (evs @ evs') = at_most_one_alive evs"
    and q: "\<not> is_lifecycle e"
    by simp_all
  have m: "alive_models ((evs @ evs') @ [e]) = alive_models evs"
    and c: "alive_ctxs ((evs @ evs') @ [e]) = alive_ctxs evs"
    unfolding alive_simps by (simp_all add: track_quiet [OF q] ih)
  have "at_most_one_alive ((evs @ evs') @ [e]) = at_most_one_alive evs"
    unfolding at_most_one_alive_snoc [of "evs @ evs'" e] m c ih(3)
    using at_most_one_alive_now [of evs] by auto
  with m c show ?case by simp
qed

lemma lifecycle_inv_quiet:
  assumes "lifecycle_inv s" "calls s' = calls s @ evs" "\<forall>e\<in>set evs. \<not> is_lifecycle e"
    "g_llama s' = g_llama s"
  shows "lifecycle_inv s'"
  using assms alive_append_quiet [OF assms(3), of "calls s"]
  by (simp add: lifecycle_inv_def)

lemma nativeGenerate_quiet:
  assumes gen: "nativeGenerate api prompt maxTokens temperature s = (out, s')"
  shows "calls s' = calls s @ new_calls s s' \<and> g_llama s' = g_llama s
         \<and> (\<forall>e\<in>set (new_calls s s'). \<not> is_lifecycle e)"
proof (cases "is_loaded (g_llama s) \<and> ctx (g_llama s) \<noteq> nullptr \<and> model (g_llama s) \<noteq> nullptr")
  case False
  with gen have "s' = s" by (auto simp add: nativeGenerate_def)
  then show ?thesis by (simp add: new_calls_def)
next
  case True
  then have loaded: "is_loaded (g_llama s)" "ctx (g_llama s) \<noteq> nullptr"
    "model (g_llama s) \<noteq> nullptr" by simp_all
  have clr: "\<forall>e\<in>set (new_calls s (clear_kv api s)). \<not> is_lifecycle e"
    by (simp add: new_calls_clear_kv)
  from loaded gen show ?thesis
  proof (cases rule: nativeGenerate_cases)
    case overflow
    from overflow(3) have "calls s' = calls s @ (new_calls s (clear_kv api s) @
         [N_Ctx (ctx (g_llama s)) (llama_n_ctx api (ctx (g_llama s)) (world (clear_kv api s))),
          Tokenize (vocab (g_llama s)) (jstring_to_string prompt)
            (llama_n_ctx api (ctx (g_llama s)) (world (clear_kv api s))) True True
            (- int (length (tokenize_text api (vocab (g_llama s)) (jstring_to_string prompt)
               True True)))])"
      by (simp add: clear_kv_extends)
    from this new_calls_append [OF this] clr overflow(4) show ?thesis by simp
  next
    case (prefill_failed rc w)
    from prefill_failed(5) have "calls s' = calls s @ (new_calls s (clear_kv api s) @
         [N_Ctx (ctx (g_llama s)) (llama_n_ctx api (ctx (g_llama s)) (world (clear_kv api s))),
          Tokenize (vocab (g_llama s)) (jstring_to_string prompt)
            (llama_n_ctx api (ctx (g_llama s)) (world (clear_kv api s))) True True
            (int (length (tokenize_text api (vocab (g_llama s)) (jstring_to_string prompt)
               True True))),
          Decode (ctx (g_llama s))
            (tokenize_text api (vocab (g_llama s)) (jstring_to_string prompt) True True) rc])"
      by (simp add: clear_kv_extends)
    from this new_calls_append [OF this] clr prefill_failed(6) show ?thesis by simp
  next
    case (generated w smp st sd s10 s11)
    note ext = gen_loop_extends [OF generated(5)]
    note quiet = gen_loop_quiet [OF generated(5)]
    from generated(6) ext generated(3)
    have "calls s' = calls s @ (new_calls s (clear_kv api s) @
         [N_Ctx (ctx (g_llama s)) (llama_n_ctx api (ctx (g_llama s)) (world (clear_kv api s))),
          Tokenize (vocab (g_llama s)) (jstring_to_string prompt)
            (llama_n_ctx api (ctx (g_llama s)) (world (clear_kv api s))) True True
            (int (length (tokenize_text api (vocab (g_llama s)) (jstring_to_string prompt)
               True True))),
          Decode (ctx (g_llama s))
            (tokenize_text api (vocab (g_llama s)) (jstring_to_string prompt) True True) 0,
          Sampler_Chain_Init smp, Sampler_Init_Temp temperature st, Sampler_Chain_Add smp st,
          Sampler_Init_Dist (LLAMA_DEFAULT_SEED api) sd, Sampler_Chain_Add smp sd,
          Vocab_Eos (vocab (g_llama s)) (llama_vocab_eos api (vocab (g_llama s)))]
         @ new_calls s10 s11 @ [Sampler_Free smp])"
      by (simp add: clear_kv_extends)
    from new_calls_append [OF this] clr quiet
    have "\<forall>e\<in>set (new_calls s s'). \<not> is_lifecycle e"
      by auto
    moreover have "g_llama s' = g_llama s"
      using generated(4,7) ext by simp
    moreover note \<open>calls s' = calls s @ _\<close> [folded new_calls_append [OF \<open>calls s' = calls s @ _\<close>]]
    ultimately show ?thesis by simp
  qed
qed

text \<open>What the release steps do from a state in which the global and the history
  agree.\<close>

lemma release_both:
  fixes api :: "'w llama_api" and s :: "'w state"
  defines "s1 \<equiv> release_model api (release_ctx api s)"
  assumes inv: "lifecycle_inv s"
  shows "calls s1 = calls s @ (if ctx (g_llama s) \<noteq> nullptr then [Free (ctx (g_llama s))] else [])
                            @ (if model (g_llama s) \<noteq> nullptr then [Model_Free (model (g_llama s))] else [])"
    and "model (g_llama s1) = nullptr" and "ctx (g_llama s1) = nullptr"
    and "is_loaded (g_llama s1) = is_loaded (g_llama s)"
    and "vocab (g_llama s1) = vocab (g_llama s)"
    and "alive_models (calls s1) = []" and "alive_ctxs (calls s1) = []"
    and "at_most_one_alive (calls s1)"
proof -
  from inv have one: "at_most_one_alive (calls s)"
    and m: "alive_models (calls s) = (if model (g_llama s) = nullptr then [] else [model (g_llama s)])"
    and c: "alive_ctxs (calls s) = (if ctx (g_llama s) = nullptr then [] else [ctx (g_llama s)])"
    and both: "(model (g_llama s) = nullptr) = (ctx (g_llama s) = nullptr)"
    by (simp_all add: lifecycle_inv_def)
  show calls: "calls s1 = calls s @ (if ctx (g_llama s) \<noteq> nullptr then [Free (ctx (g_llama s))] else [])
                            @ (if model (g_llama s) \<noteq> nullptr then [Model_Free (model (g_llama s))] else [])"
    and "model (g_llama s1) = nullptr" and "ctx (g_llama s1) = nullptr"
    and "is_loaded (g_llama s1) = is_loaded (g_llama s)"
    and "vocab (g_llama s1) = vocab (g_llama s)"
    by (simp_all add: s1_def release_model_def release_ctx_def lib_call_def Let_def)
  have "alive_models (calls s1) = [] \<and> alive_ctxs (calls s1) = []
    \<and> at_most_one_alive (calls s1)"
  proof (cases "ctx (g_llama s) = nullptr")
    case True
    with both calls one m c show ?thesis by simp
  next
    case False
    with both have calls': "calls s1 = (calls s @ [Free (ctx (g_llama s))])
        @ [Model_Free (model (g_llama s))]"
      using calls by simp
    from False both m c
    have "alive_models (calls s1) = []" and "alive_ctxs (calls s1) = []"
      unfolding calls' alive_simps by (simp_all add: track_models_def track_ctxs_def)
    moreover from False both m c one
    have "at_most_one_alive (calls s1)"
      unfolding calls' at_most_one_alive_snoc alive_simps
      by (simp add: track_models_def track_ctxs_def)
    ultimately show ?thesis by simp
  qed
  then show "alive_models (calls s1) = []" and "alive_ctxs (calls s1) = []"
    and "at_most_one_alive (calls s1)"
    by simp_all
qed

lemma unload_previous_inv:
  fixes api :: "'w llama_api" and s :: "'w state"
  defines "s1 \<equiv> unload_previous api s"
  assumes inv: "lifecycle_inv s"
  shows "calls s1 = calls s @ (if is_loaded (g_llama s)
            then [Free (ctx (g_llama s)), Model_Free (model (g_llama s))] else [])"
    and "model (g_llama s1) = nullptr" and "ctx (g_llama s1) = nullptr"
    and "\<not> is_loaded (g_llama s1)"
    and "alive_models (calls s1) = []" and "alive_ctxs (calls s1) = []"
    and "at_most_one_alive (calls s1)"
proof -
  have "calls s1 = calls s @ (if is_loaded (g_llama s)
            then [Free (ctx (g_llama s)), Model_Free (model (g_llama s))] else [])
    \<and> model (g_llama s1) = nullptr \<and> ctx (g_llama s1) = nullptr
    \<and> \<not> is_loaded (g_llama s1)
    \<and> alive_models (calls s1) = [] \<and> alive_ctxs (calls s1) = []
    \<and> at_most_one_alive (calls s1)"
  proof (cases "is_loaded (g_llama s)")
    case True
    with inv have "model (g_llama s) \<noteq> nullptr" "ctx (g_llama s) \<noteq> nullptr"
      by (simp_all add: lifecycle_inv_def)
    with True release_both [OF inv, of api] show ?thesis
      by (simp add: s1_def unload_previous_def set_is_loaded_def)
  next
    case False
    with inv have "model (g_llama s) = nullptr" "ctx (g_llama s) = nullptr"
      by (auto simp add: lifecycle_inv_def)
    with False inv show ?thesis
      by (simp add: s1_def unload_previous_def lifecycle_inv_def)
  qed
  then show "calls s1 = calls s @ (if is_loaded (g_llama s)
            then [Free (ctx (g_llama s)), Model_Free (model (g_llama s))] else [])"
    and "model (g_llama s1) = nullptr" and "ctx (g_llama s1) = nullptr"
    and "\<not> is_loaded (g_llama s1)"
    and "alive_models (calls s1) = []" and "alive_ctxs (calls s1) = []"
    and "at_most_one_alive (calls s1)"
    by blast+
qed

text \<open>The three ways through nativeLoadModel.\<close>

lemma nativeLoadModel_cases:
  assumes "nativeLoadModel api modelPath nThreads nCtx s = (ok, s')"
  obtains
    (no_model) "\<not> ok"
      "calls s' = calls (unload_previous api s)
         @ [Model_Load_From_File (jstring_to_string modelPath) nullptr]"
      "model (g_llama s') = nullptr"
      "ctx (g_llama s') = ctx (g_llama (unload_previous api s))"
      "is_loaded (g_llama s') = is_loaded (g_llama (unload_previous api s))"
  | (no_ctx) m where "m \<noteq> nullptr" "\<not> ok"
      "calls s' = calls (unload_previous api s)
         @ [Model_Load_From_File (jstring_to_string modelPath) m,
            Model_Get_Vocab m (llama_model_get_vocab api m),
            Init_From_Model m \<lparr>n_ctx = word_of_int nCtx, n_threads = nThreads,
                                n_threads_batch = nThreads\<rparr> nullptr,
            Model_Free m]"
      "model (g_llama s') = nullptr" "ctx (g_llama s') = nullptr"
      "is_loaded (g_llama s') = is_loaded (g_llama (unload_previous api s))"
  | (loaded) m c where "m \<noteq> nullptr" "c \<noteq> nullptr" "ok"
      "calls s' = calls (unload_previous api s)
         @ [Model_Load_From_File (jstring_to_string modelPath) m,
            Model_Get_Vocab m (llama_model_get_vocab api m),
            Init_From_Model m \<lparr>n_ctx = word_of_int nCtx, n_threads = nThreads,
                                n_threads_batch = nThreads\<rparr> c]"
      "model (g_llama s') = m" "ctx (g_llama s') = c" "is_loaded (g_llama s')"
proof -
  let ?s1 = "unload_previous api s"
  let ?p = "\<lparr>n_ctx = word_of_int nCtx, n_threads = nThreads, n_threads_batch = nThreads\<rparr>"
  obtain m w2 where ld:
    "llama_model_load_from_file api (jstring_to_string modelPath) (world ?s1) = (m, w2)"
    by (cases "llama_model_load_from_file api (jstring_to_string modelPath) (world ?s1)")
  obtain c w4 where ini: "llama_init_from_model api m ?p w2 = (c, w4)"
    by (cases "llama_init_from_model api m ?p w2")
  show ?thesis
  proof (cases "m = nullptr")
    case True
    with assms ld show ?thesis
      by (intro no_model) (auto simp add: nativeLoadModel_def Let_def lib_call_def)
  next
    case m: False
    show ?thesis
    proof (cases "c = nullptr")
      case True
      with assms ld ini m show ?thesis
        by (intro no_ctx [of m])
           (auto simp add: nativeLoadModel_def Let_def lib_call_def set_is_loaded_def)
    next
      case False
      with assms ld ini m show ?thesis
        by (intro loaded [of m c])
           (auto simp add: nativeLoadModel_def Let_def lib_call_def set_is_loaded_def)
    qed
  qed
qed

lemma nativeLoadModel_inv:
  assumes inv: "lifecycle_inv s"
  shows "lifecycle_inv (snd (nativeLoadModel api modelPath nThreads nCtx s))"
proof -
  obtain ok s' where run: "nativeLoadModel api modelPath nThreads nCtx s = (ok, s')"
    by (cases "nativeLoadModel api modelPath nThreads nCtx s")
  note u = unload_previous_inv(2-) [OF inv, of api]
  from run have "lifecycle_inv s'"
  proof (cases rule: nativeLoadModel_cases)
    case no_model
    with u show ?thesis
      by (simp add: lifecycle_inv_def at_most_one_alive_snoc track_models_def track_ctxs_def)
  next
    case (no_ctx m)
    have "calls s' = (((calls (unload_previous api s)
         @ [Model_Load_From_File (jstring_to_string modelPath) m])
         @ [Model_Get_Vocab m (llama_model_get_vocab api m)])
         @ [Init_From_Model m \<lparr>n_ctx = word_of_int nCtx, n_threads = nThreads,
                                n_threads_batch = nThreads\<rparr> nullptr])
         @ [Model_Free m]"
      using no_ctx(3) by simp
    with u no_ctx(1,4-) show ?thesis
      unfolding lifecycle_inv_def
      by (simp only: at_most_one_alive_snoc alive_simps)
         (simp add: track_models_def track_ctxs_def)
  next
    case (loaded m c)
    have "calls s' = ((calls (unload_previous api s)
         @ [Model_Load_From_File (jstring_to_string modelPath) m])
         @ [Model_Get_Vocab m (llama_model_get_vocab api m)])
         @ [Init_From_Model m \<lparr>n_ctx = word_of_int nCtx, n_threads = nThreads,
                                n_threads_batch = nThreads\<rparr> c]"
      using loaded(4) by simp
    with u loaded(1,2,5-) show ?thesis
      unfolding lifecycle_inv_def
      by (simp only: at_most_one_alive_snoc alive_simps)
         (simp add: track_models_def track_ctxs_def)
  qed
  with run show ?thesis by simp
qed

lemma nativeFree_inv:
  assumes inv: "lifecycle_inv s"
  shows "lifecycle_inv (nativeFree api s)"
proof -
  note r = release_both [OF inv, of api]
  let ?s1 = "set_is_loaded False (release_model api (release_ctx api s))"
  from r have a: "lifecycle_inv ?s1"
    by (simp add: lifecycle_inv_def set_is_loaded_def)
  have b: "calls (nativeFree api s) = calls ?s1 @ [Backend_Free]"
    and c: "g_llama (nativeFree api s) = g_llama ?s1"
    by (simp_all add: nativeFree_def lib_call_def Let_def)
  show ?thesis
    by (rule lifecycle_inv_quiet [OF a b _ c]) simp
qed

lemma nativeInit_inv: "lifecycle_inv s \<Longrightarrow> lifecycle_inv (nativeInit api s)"
  by (rule lifecycle_inv_quiet [of s _ "[Backend_Init]"])
     (simp_all add: nativeInit_def lib_call_def)

lemma nativeGenerate_inv:
  assumes "lifecycle_inv s"
  shows "lifecycle_inv (snd (nativeGenerate api prompt maxTokens temperature s))"
proof -
  obtain out s' where run: "nativeGenerate api prompt maxTokens temperature s = (out, s')"
    by (cases "nativeGenerate api prompt maxTokens temperature s")
  from nativeGenerate_quiet [OF run] assms have "lifecycle_inv s'"
    by (intro lifecycle_inv_quiet [of s s' "new_calls s s'"]) simp_all
  with run show ?thesis by simp
qed

lemma reachable_inv: "reachable api s \<Longrightarrow> lifecycle_inv s"
proof (induction rule: reachable.induct)
  case (start w)
  show ?case by (simp add: lifecycle_inv_def g_initial_def)
next
  case (init s)
  then show ?case by (simp add: nativeInit_inv)
next
  case (load s modelPath nThreads nCtx)
  then show ?case by (simp add: nativeLoadModel_inv)
next
  case (generate s prompt maxTokens temperature)
  then show ?case by (simp add: nativeGenerate_inv)
next
  case (free s)
  then show ?case by (simp add: nativeFree_inv)
qed

lemma fake_loaded_reachable: "reachable fake_api fake_loaded"
proof -
  have "reachable fake_api fake_initial"
    unfolding fake_initial_def by (rule reachable.start)
  from reachable.load [OF this, of "Some ''qwen.gguf''" 4 8]
  show ?thesis
    by (simp add: fake_loaded_def fake_initial_def nativeLoadModel_def unload_previous_def
          fake_api_def g_initial_def lib_call_def jstring_to_string_def nullptr_def
          set_is_loaded_def)
qed

section \<open>The specified properties\<close>

text \<open>
  C1. One nativeGenerate samples at most \<open>maxTokens\<close> tokens (none when \<open>maxTokens\<close>
  is negative, and none when the engine is not loaded). If the token sampled at iteration
  \<open>k\<close> is an end-of-generation token of the vocabulary, it is the last token sampled
  (the loop stops there), and the string returned is the text of the \<open>k\<close> tokens
  sampled before it, in order: the end token contributes nothing. The text of a token is
  what the loop appends for it, the piece that \<open>llama_token_to_piece\<close> wrote into the
  256-byte buffer.
\<close>

theorem generate_bounded_eog_stops:
  fixes api :: "'w llama_api" and s s' :: "'w state"
  defines "ts \<equiv> sampled (new_calls s s')"
  assumes gen: "nativeGenerate api prompt maxTokens temperature s = (out, s')"
  shows "length ts \<le> nat maxTokens \<and>
     (\<forall>k<length ts. llama_vocab_is_eog api (vocab (g_llama s)) (ts ! k) \<longrightarrow>
        Suc k = length ts \<and>
        out = concat (map (token_text api (vocab (g_llama s))) (take k ts)))"
proof (cases "is_loaded (g_llama s) \<and> ctx (g_llama s) \<noteq> nullptr \<and> model (g_llama s) \<noteq> nullptr")
  case False
  with gen have "s' = s" by (auto simp add: nativeGenerate_def)
  then show ?thesis by (simp add: ts_def new_calls_def)
next
  case True
  then have loaded: "is_loaded (g_llama s)" "ctx (g_llama s) \<noteq> nullptr"
    "model (g_llama s) \<noteq> nullptr" by simp_all
  from loaded gen show ?thesis
  proof (cases rule: nativeGenerate_calls)
    case overflow
    then show ?thesis by (simp add: ts_def)
  next
    case (prefill_failed rc)
    then show ?thesis by (simp add: ts_def)
  next
    case (generated smp st sd s10 s11)
    have "ts = sampled (new_calls s10 s11)"
      unfolding ts_def generated(4) by simp
    with gen_loop_samples [OF generated(3)] show ?thesis by simp
  qed
qed

theorem generate_bounded_eog_stops_witness:
  "sampled (new_calls fake_loaded
      (snd (nativeGenerate fake_api (Some ''hiya'') 5 0 fake_loaded))) = [4, 5]
   \<and> llama_vocab_is_eog fake_api (vocab (g_llama fake_loaded)) 5
   \<and> fst (nativeGenerate fake_api (Some ''hiya'') 5 0 fake_loaded)
       = concat (map (token_text fake_api (vocab (g_llama fake_loaded))) [4])
   \<and> fst (nativeGenerate fake_api (Some ''hiya'') 5 0 fake_loaded) = ''end|>x''"
proof -
  let ?run = "nativeGenerate fake_api (Some ''hiya'') 5 0 fake_loaded"
  have run: "?run = (fst ?run, snd ?run)"
    by simp
  have ts: "sampled (new_calls fake_loaded (snd ?run)) = [4, 5]"
    by code_simp
  have eog: "llama_vocab_is_eog fake_api (vocab (g_llama fake_loaded)) 5"
    by (simp add: fake_api_def)
  have out: "fst ?run = ''end|>x''"
    by code_simp
  from generate_bounded_eog_stops [OF run]
  have "\<forall>k<length [4, 5 :: int].
      llama_vocab_is_eog fake_api (vocab (g_llama fake_loaded)) ([4, 5] ! k) \<longrightarrow>
      Suc k = length [4, 5 :: int] \<and>
      fst ?run = concat (map (token_text fake_api (vocab (g_llama fake_loaded))) (take k [4, 5]))"
    unfolding ts by simp
  from this [rule_format, of 1] eog
  have "fst ?run = concat (map (token_text fake_api (vocab (g_llama fake_loaded))) [4])"
    by simp
  with ts eog out show ?thesis by simp
qed

text \<open>
  C2. Let \<open>acc\<close> be the text accumulated by one nativeGenerate: the pieces of all the
  tokens it detokenised, in order. If the marker \<open><|im_end|>\<close> occurs in \<open>acc\<close>, the
  string returned is \<open>acc\<close> cut at the first occurrence of the marker (the marker and
  what follows it are dropped), and the loop stopped at the very iteration in which the
  marker first appeared: \<open>acc\<close> is the text of the tokens detokenised before, in which
  the marker does not occur, followed by the piece of one last token; the
  detokenisation of that token is the last library call before the sampler is freed, with
  no decode and no further sample after it; and every token sampled was detokenised.
\<close>

theorem generate_stop_marker:
  fixes api :: "'w llama_api" and s s' :: "'w state"
  defines "acc \<equiv> concat (map (token_text api (vocab (g_llama s)))
                             (detokenized (new_calls s s')))"
  assumes gen: "nativeGenerate api prompt maxTokens temperature s = (out, s')"
    and occ: "occurs_at im_end acc q"
  shows "\<exists>p. occurs_at im_end acc p \<and> (\<forall>q'<p. \<not> occurs_at im_end acc q')
           \<and> out = take p acc
           \<and> (\<exists>pre t n smp. new_calls s s' =
                 pre @ [Token_To_Piece (vocab (g_llama s)) t 256 0 True n, Sampler_Free smp]
               \<and> acc = concat (map (token_text api (vocab (g_llama s))) (detokenized pre))
                        @ token_text api (vocab (g_llama s)) t
               \<and> (\<forall>q'. \<not> occurs_at im_end
                           (concat (map (token_text api (vocab (g_llama s))) (detokenized pre)))
                           q')
               \<and> sampled (new_calls s s') = detokenized (new_calls s s'))"
proof (cases "is_loaded (g_llama s) \<and> ctx (g_llama s) \<noteq> nullptr \<and> model (g_llama s) \<noteq> nullptr")
  case False
  with gen have "s' = s" by (auto simp add: nativeGenerate_def)
  then have "acc = []" by (simp add: acc_def new_calls_def)
  with occ show ?thesis by (simp add: occurs_at_def im_end_def)
next
  case True
  then have loaded: "is_loaded (g_llama s)" "ctx (g_llama s) \<noteq> nullptr"
    "model (g_llama s) \<noteq> nullptr" by simp_all
  from loaded gen show ?thesis
  proof (cases rule: nativeGenerate_calls)
    case overflow
    then have "acc = []" by (simp add: acc_def)
    with occ show ?thesis by (simp add: occurs_at_def im_end_def)
  next
    case (prefill_failed rc)
    then have "acc = []" by (simp add: acc_def)
    with occ show ?thesis by (simp add: occurs_at_def im_end_def)
  next
    case (generated smp st sd s10 s11)
    let ?v = "vocab (g_llama s)"
    let ?lp = "new_calls s10 s11"
    let ?front = "new_calls s (clear_kv api s) @
         [N_Ctx (ctx (g_llama s)) (llama_n_ctx api (ctx (g_llama s)) (world (clear_kv api s))),
          Tokenize ?v (jstring_to_string prompt)
            (llama_n_ctx api (ctx (g_llama s)) (world (clear_kv api s))) True True
            (int (length (tokenize_text api ?v (jstring_to_string prompt) True True))),
          Decode (ctx (g_llama s))
            (tokenize_text api ?v (jstring_to_string prompt) True True) 0,
          Sampler_Chain_Init smp, Sampler_Init_Temp temperature st, Sampler_Chain_Add smp st,
          Sampler_Init_Dist (LLAMA_DEFAULT_SEED api) sd, Sampler_Chain_Add smp sd,
          Vocab_Eos ?v (llama_vocab_eos api ?v)]"
    have nc: "new_calls s s' = ?front @ ?lp @ [Sampler_Free smp]"
      using generated(4) by simp
    have front: "detokenized ?front = []" "sampled ?front = []"
      by simp_all
    have acc: "acc = concat (map (token_text api ?v) (detokenized ?lp))"
      unfolding acc_def nc by (simp add: front)
    from occ str_find_None [of acc im_end q]
    obtain p where p: "str_find acc im_end = Some p"
      by (cases "str_find acc im_end") auto
    from gen_loop_marker [OF generated(3) str_find_empty_text] p
    have out: "out = take p acc"
      unfolding acc by auto
    from p have p': "str_find ([] @ concat (map (token_text api ?v) (detokenized ?lp))) im_end
        = Some p"
      unfolding acc by simp
    from gen_loop_marker_stop [OF generated(3) str_find_empty_text p']
    obtain pre t n where pre: "?lp = pre @ [Token_To_Piece ?v t 256 0 True n]"
      and before: "str_find (concat (map (token_text api ?v) (detokenized pre))) im_end = None"
      and same: "sampled ?lp = detokenized ?lp"
      by auto
    have shape: "new_calls s s' = (?front @ pre) @ [Token_To_Piece ?v t 256 0 True n,
        Sampler_Free smp]"
      unfolding nc pre by simp
    have det: "detokenized (?front @ pre) = detokenized pre"
      by (simp add: front)
    have acc': "acc = concat (map (token_text api ?v) (detokenized (?front @ pre)))
        @ token_text api ?v t"
      unfolding det acc pre by simp
    have clean: "\<not> occurs_at im_end
        (concat (map (token_text api ?v) (detokenized (?front @ pre)))) q'" for q'
      unfolding det by (rule str_find_None [OF before])
    have all: "sampled (new_calls s s') = detokenized (new_calls s s')"
      unfolding nc using same by (simp add: front)
    from shape acc' clean all
    have "\<exists>pre t n smp. new_calls s s' =
                 pre @ [Token_To_Piece ?v t 256 0 True n, Sampler_Free smp]
               \<and> acc = concat (map (token_text api ?v) (detokenized pre))
                        @ token_text api ?v t
               \<and> (\<forall>q'. \<not> occurs_at im_end
                           (concat (map (token_text api ?v) (detokenized pre))) q')
               \<and> sampled (new_calls s s') = detokenized (new_calls s s')"
      by blast
    with str_find_Some [OF p] out show ?thesis by blast
  qed
qed

theorem generate_stop_marker_witness:
  "occurs_at im_end
     (concat (map (token_text fake_api (vocab (g_llama fake_loaded)))
        (detokenized (new_calls fake_loaded
           (snd (nativeGenerate fake_api (Some ''hi'') 5 0 fake_loaded)))))) 1
   \<and> concat (map (token_text fake_api (vocab (g_llama fake_loaded)))
        (detokenized (new_calls fake_loaded
           (snd (nativeGenerate fake_api (Some ''hi'') 5 0 fake_loaded))))) = ''a<|im_end|>x''
   \<and> fst (nativeGenerate fake_api (Some ''hi'') 5 0 fake_loaded) = ''a''
   \<and> (\<exists>p. occurs_at im_end ''a<|im_end|>x'' p
          \<and> (\<forall>q'<p. \<not> occurs_at im_end ''a<|im_end|>x'' q')
          \<and> fst (nativeGenerate fake_api (Some ''hi'') 5 0 fake_loaded)
              = take p ''a<|im_end|>x''
          \<and> (\<exists>pre t n smp.
                new_calls fake_loaded
                  (snd (nativeGenerate fake_api (Some ''hi'') 5 0 fake_loaded)) =
                  pre @ [Token_To_Piece (vocab (g_llama fake_loaded)) t 256 0 True n,
                         Sampler_Free smp]
              \<and> ''a<|im_end|>x''
                  = concat (map (token_text fake_api (vocab (g_llama fake_loaded)))
                      (detokenized pre))
                    @ token_text fake_api (vocab (g_llama fake_loaded)) t
              \<and> (\<forall>q'. \<not> occurs_at im_end
                    (concat (map (token_text fake_api (vocab (g_llama fake_loaded)))
                       (detokenized pre))) q')))
   \<and> detokenized (new_calls fake_loaded
        (snd (nativeGenerate fake_api (Some ''hi'') 5 0 fake_loaded))) = [2, 3, 4]
   \<and> concat (map (token_text fake_api (vocab (g_llama fake_loaded))) [2, 3]) = ''a<|im_''"
proof -
  let ?run = "nativeGenerate fake_api (Some ''hi'') 5 0 fake_loaded"
  let ?acc = "concat (map (token_text fake_api (vocab (g_llama fake_loaded)))
        (detokenized (new_calls fake_loaded (snd ?run))))"
  have acc: "?acc = ''a<|im_end|>x''"
    by code_simp
  have occ: "occurs_at im_end ?acc 1"
    unfolding acc by (simp add: occurs_at_def im_end_def)
  have out: "fst ?run = ''a''"
    by code_simp
  have toks: "detokenized (new_calls fake_loaded (snd ?run)) = [2, 3, 4]"
    by code_simp
  have before: "concat (map (token_text fake_api (vocab (g_llama fake_loaded))) [2, 3])
      = ''a<|im_''"
    by code_simp
  have run: "?run = (fst ?run, snd ?run)"
    by simp
  note inst = generate_stop_marker [OF run occ]
  have "\<exists>p. occurs_at im_end ''a<|im_end|>x'' p
          \<and> (\<forall>q'<p. \<not> occurs_at im_end ''a<|im_end|>x'' q')
          \<and> fst ?run = take p ''a<|im_end|>x''
          \<and> (\<exists>pre t n smp.
                new_calls fake_loaded (snd ?run) =
                  pre @ [Token_To_Piece (vocab (g_llama fake_loaded)) t 256 0 True n,
                         Sampler_Free smp]
              \<and> ''a<|im_end|>x''
                  = concat (map (token_text fake_api (vocab (g_llama fake_loaded)))
                      (detokenized pre))
                    @ token_text fake_api (vocab (g_llama fake_loaded)) t
              \<and> (\<forall>q'. \<not> occurs_at im_end
                    (concat (map (token_text fake_api (vocab (g_llama fake_loaded)))
                       (detokenized pre))) q'))"
    using inst unfolding acc by blast
  with acc occ out toks before show ?thesis by simp
qed

text \<open>
  C3. When the engine is not loaded (no load has succeeded, or nativeFree has run),
  nativeGenerate returns the empty string and leaves the whole state as it was: the
  global, the library state and the list of library calls, so that no library function
  (tokenisation, KV-cache access, decoding) is called at all. After nativeFree the engine
  is in that case whatever came before.
\<close>

theorem generate_not_loaded:
  "(\<not> is_loaded (g_llama s) \<longrightarrow> nativeGenerate api prompt maxTokens temperature s = ([], s))
   \<and> nativeGenerate api prompt maxTokens temperature (nativeFree api s) = ([], nativeFree api s)"
  by (simp add: nativeGenerate_def nativeFree_def set_is_loaded_def lib_call_def)

theorem generate_not_loaded_witness:
  "\<not> is_loaded (g_llama fake_initial)
   \<and> nativeGenerate fake_api (Some ''hello'') 5 0 fake_initial = ([], fake_initial)"
  using generate_not_loaded [of fake_initial fake_api "Some ''hello''" 5 0]
  by (simp add: fake_initial_def g_initial_def)




text \<open>
  C5. On a loaded engine, when the prompt has more tokens than the context holds
  (\<open>llama_n_ctx\<close>, the size of the buffer the bridge offers), the tokenisation call
  reports the overflow (the negated token count) and is the last library call of
  nativeGenerate, which returns the empty string: nothing is decoded and nothing is
  sampled, so no shortened prompt is ever processed.
\<close>

theorem generate_prompt_overflow:
  fixes api :: "'w llama_api" and s s' :: "'w state" and prompt :: "string option"
  defines "toks \<equiv> tokenize_text api (vocab (g_llama s)) (jstring_to_string prompt) True True"
    and "n \<equiv> llama_n_ctx api (ctx (g_llama s)) (world (clear_kv api s))"
  assumes "is_loaded (g_llama s)" "ctx (g_llama s) \<noteq> nullptr" "model (g_llama s) \<noteq> nullptr"
    and "nativeGenerate api prompt maxTokens temperature s = (out, s')"
    and over: "n < length toks"
  shows "out = []
     \<and> (\<exists>pre. new_calls s s' =
            pre @ [Tokenize (vocab (g_llama s)) (jstring_to_string prompt) n True True
                     (- int (length toks))])
     \<and> filter is_decode (new_calls s s') = []
     \<and> sampled (new_calls s s') = []"
  using assms(3-6)
proof (cases rule: nativeGenerate_calls)
  case overflow
  have "filter is_decode (new_calls s (clear_kv api s)) = []"
    by (simp add: new_calls_clear_kv)
  moreover have "\<exists>pre. new_calls s s' =
            pre @ [Tokenize (vocab (g_llama s)) (jstring_to_string prompt) n True True
                     (- int (length toks))]"
    unfolding overflow(3) n_def toks_def
    by (intro exI [of _ "new_calls s (clear_kv api s) @
         [N_Ctx (ctx (g_llama s)) (llama_n_ctx api (ctx (g_llama s)) (world (clear_kv api s)))]"])
       simp
  ultimately show ?thesis using overflow by simp
next
  case (prefill_failed rc)
  with over show ?thesis by (simp add: n_def toks_def)
next
  case (generated smp st sd s10 s11)
  with over show ?thesis by (simp add: n_def toks_def)
qed

theorem generate_prompt_overflow_witness:
  "is_loaded (g_llama fake_loaded) \<and> ctx (g_llama fake_loaded) \<noteq> nullptr
   \<and> model (g_llama fake_loaded) \<noteq> nullptr
   \<and> llama_n_ctx fake_api (ctx (g_llama fake_loaded)) (world (clear_kv fake_api fake_loaded))
       < length (tokenize_text fake_api (vocab (g_llama fake_loaded))
                   (jstring_to_string (Some ''hello you'')) True True)
   \<and> fst (nativeGenerate fake_api (Some ''hello you'') 5 0 fake_loaded) = []
   \<and> filter is_decode (new_calls fake_loaded
        (snd (nativeGenerate fake_api (Some ''hello you'') 5 0 fake_loaded))) = []"
proof -
  let ?run = "nativeGenerate fake_api (Some ''hello you'') 5 0 fake_loaded"
  have l: "is_loaded (g_llama fake_loaded)" "ctx (g_llama fake_loaded) \<noteq> nullptr"
    "model (g_llama fake_loaded) \<noteq> nullptr"
    by (simp_all add: fake_loaded_def nullptr_def)
  have over: "llama_n_ctx fake_api (ctx (g_llama fake_loaded))
                (world (clear_kv fake_api fake_loaded))
       < length (tokenize_text fake_api (vocab (g_llama fake_loaded))
                   (jstring_to_string (Some ''hello you'')) True True)"
    by (simp add: fake_api_def jstring_to_string_def)
  from generate_prompt_overflow [OF l _ over, of 5 0 "fst ?run" "snd ?run"] l over
  show ?thesis by simp
qed

text \<open>
  C6. On a loaded engine a failing \<open>llama_decode\<close> is handled in two ways. When the
  prompt fits and its prefill decode fails, nativeGenerate returns the empty string, that
  decode is its last library call and no token is sampled. When a decode fails after at
  least one token has been sampled, it is the decode of the token sampled last and the
  last library call before the sampler is freed (the loop stops there); every token
  sampled was detokenised, and the string returned is the text of all of them, the last
  one included.
\<close>

theorem generate_decode_failure:
  fixes api :: "'w llama_api" and s s' :: "'w state" and prompt :: "string option"
  defines "toks \<equiv> tokenize_text api (vocab (g_llama s)) (jstring_to_string prompt) True True"
    and "evs \<equiv> new_calls s s'"
  assumes "is_loaded (g_llama s)" "ctx (g_llama s) \<noteq> nullptr" "model (g_llama s) \<noteq> nullptr"
    and "nativeGenerate api prompt maxTokens temperature s = (out, s')"
  shows "(length toks \<le> llama_n_ctx api (ctx (g_llama s)) (world (clear_kv api s))
          \<and> fst (llama_decode api (ctx (g_llama s)) toks (world (clear_kv api s))) \<noteq> 0
          \<longrightarrow> out = [] \<and> sampled evs = []
              \<and> (\<exists>pre rc. evs = pre @ [Decode (ctx (g_llama s)) toks rc] \<and> rc \<noteq> 0))
     \<and> (sampled evs \<noteq> [] \<and> (\<exists>e\<in>set evs. decode_failed e)
          \<longrightarrow> (\<exists>pre rc smp. evs = pre @ [Decode (ctx (g_llama s)) [last (sampled evs)] rc,
                                           Sampler_Free smp] \<and> rc \<noteq> 0)
              \<and> detokenized evs = sampled evs
              \<and> out = concat (map (token_text api (vocab (g_llama s))) (sampled evs)))"
  using assms(3-)
proof (cases rule: nativeGenerate_calls)
  case overflow
  then show ?thesis by (simp add: evs_def toks_def)
next
  case (prefill_failed rc)
  have "\<exists>pre rc'. evs = pre @ [Decode (ctx (g_llama s)) toks rc'] \<and> rc' \<noteq> 0"
    unfolding evs_def prefill_failed(5) toks_def using prefill_failed(4)
    by (intro exI [of _ "new_calls s (clear_kv api s) @
         [N_Ctx (ctx (g_llama s)) (llama_n_ctx api (ctx (g_llama s)) (world (clear_kv api s))),
          Tokenize (vocab (g_llama s)) (jstring_to_string prompt)
            (llama_n_ctx api (ctx (g_llama s)) (world (clear_kv api s))) True True
            (int (length (tokenize_text api (vocab (g_llama s)) (jstring_to_string prompt)
               True True)))]"] exI [of _ rc])
       simp
  moreover have "sampled evs = []"
    unfolding evs_def prefill_failed(5) by simp
  ultimately show ?thesis using prefill_failed(1) by simp
next
  case (generated smp st sd s10 s11)
  let ?lp = "new_calls s10 s11"
  have smp: "sampled evs = sampled ?lp" and det: "detokenized evs = detokenized ?lp"
    unfolding evs_def generated(4) by simp_all
  have fail: "(\<exists>e\<in>set evs. decode_failed e) = (\<exists>e\<in>set ?lp. decode_failed e)"
    unfolding evs_def generated(4) by auto
  have second: "(\<exists>pre rc smp. evs = pre @ [Decode (ctx (g_llama s)) [last (sampled evs)] rc,
                                           Sampler_Free smp] \<and> rc \<noteq> 0)
              \<and> detokenized evs = sampled evs
              \<and> out = concat (map (token_text api (vocab (g_llama s))) (sampled evs))"
    if "\<exists>e\<in>set evs. decode_failed e"
  proof -
    from that fail have "\<exists>e\<in>set ?lp. decode_failed e" by simp
    from gen_loop_decode [OF generated(3) this] obtain pre rc where
      lp: "?lp = pre @ [Decode (ctx (g_llama s)) [last (sampled ?lp)] rc]" "rc \<noteq> 0"
        "detokenized ?lp = sampled ?lp"
        "out = concat (map (token_text api (vocab (g_llama s))) (sampled ?lp))"
      by auto
    define t where "t = last (sampled ?lp)"
    have lp1: "?lp = pre @ [Decode (ctx (g_llama s)) [t] rc]"
      unfolding t_def by (rule lp(1))
    have t: "last (sampled evs) = t"
      by (simp add: smp t_def)
    have "\<exists>pre'. evs = pre' @ [Decode (ctx (g_llama s)) [t] rc, Sampler_Free smp]"
      unfolding evs_def generated(4) lp1 by simp
    then have "\<exists>pre'. evs = pre' @ [Decode (ctx (g_llama s)) [last (sampled evs)] rc,
                                Sampler_Free smp]"
      by (simp only: t)
    with lp(2-) smp det show ?thesis by auto
  qed
  from generated(2) second show ?thesis by (simp add: toks_def)
qed

theorem generate_decode_failure_witness:
  "is_loaded (g_llama fake_loaded) \<and> ctx (g_llama fake_loaded) \<noteq> nullptr
   \<and> model (g_llama fake_loaded) \<noteq> nullptr
   \<and> length (tokenize_text fake_api (vocab (g_llama fake_loaded))
                (jstring_to_string (Some ''12345678'')) True True)
         \<le> llama_n_ctx fake_api (ctx (g_llama fake_loaded)) (world (clear_kv fake_api fake_loaded))
   \<and> fst (llama_decode fake_api (ctx (g_llama fake_loaded))
            (tokenize_text fake_api (vocab (g_llama fake_loaded))
                (jstring_to_string (Some ''12345678'')) True True)
            (world (clear_kv fake_api fake_loaded))) \<noteq> 0
   \<and> fst (nativeGenerate fake_api (Some ''12345678'') 5 0 fake_loaded) = []
   \<and> sampled (new_calls fake_loaded
         (snd (nativeGenerate fake_api (Some ''12345678'') 5 0 fake_loaded))) = []
   \<and> sampled (new_calls fake_loaded
         (snd (nativeGenerate fake_api (Some ''123456'') 5 0 fake_loaded))) = [6, 7]
   \<and> (\<exists>e\<in>set (new_calls fake_loaded
         (snd (nativeGenerate fake_api (Some ''123456'') 5 0 fake_loaded))). decode_failed e)
   \<and> fst (nativeGenerate fake_api (Some ''123456'') 5 0 fake_loaded)
       = concat (map (token_text fake_api (vocab (g_llama fake_loaded))) [6, 7])
   \<and> fst (nativeGenerate fake_api (Some ''123456'') 5 0 fake_loaded) = ''bc''"
proof -
  let ?run1 = "nativeGenerate fake_api (Some ''12345678'') 5 0 fake_loaded"
  let ?run2 = "nativeGenerate fake_api (Some ''123456'') 5 0 fake_loaded"
  have l: "is_loaded (g_llama fake_loaded)" "ctx (g_llama fake_loaded) \<noteq> nullptr"
    "model (g_llama fake_loaded) \<noteq> nullptr"
    by (simp_all add: fake_loaded_def nullptr_def)
  have fits: "length (tokenize_text fake_api (vocab (g_llama fake_loaded))
                (jstring_to_string (Some ''12345678'')) True True)
         \<le> llama_n_ctx fake_api (ctx (g_llama fake_loaded)) (world (clear_kv fake_api fake_loaded))"
    by (simp add: fake_api_def jstring_to_string_def)
  have rc: "fst (llama_decode fake_api (ctx (g_llama fake_loaded))
            (tokenize_text fake_api (vocab (g_llama fake_loaded))
                (jstring_to_string (Some ''12345678'')) True True)
            (world (clear_kv fake_api fake_loaded))) \<noteq> 0"
    by code_simp
  have ts: "sampled (new_calls fake_loaded (snd ?run2)) = [6, 7]"
    by code_simp
  have bad: "\<exists>e\<in>set (new_calls fake_loaded (snd ?run2)). decode_failed e"
    by code_simp
  have out: "fst ?run2 = ''bc''"
    by code_simp
  from generate_decode_failure [OF l, of fake_api "Some ''12345678''" 5 0 "fst ?run1" "snd ?run1"]
    fits rc
  have first: "fst ?run1 = [] \<and> sampled (new_calls fake_loaded (snd ?run1)) = []"
    by simp
  from generate_decode_failure [OF l, of fake_api "Some ''123456''" 5 0 "fst ?run2" "snd ?run2"]
    ts bad
  have second: "fst ?run2 = concat (map (token_text fake_api (vocab (g_llama fake_loaded))) [6, 7])"
    by simp
  from l fits rc first ts bad second out show ?thesis by simp
qed

text \<open>
  C8. In every state the process can reach, at every point of its history at most one
  model and at most one context were alive, and this stays so through any further
  nativeLoadModel. When nativeLoadModel is called on a loaded engine, exactly the model
  and the context of the global are alive; the call first frees that context, then that
  model, and only then asks the library for the new model, at which point nothing of the
  first load is alive.
\<close>

theorem load_replaces_previous:
  fixes api :: "'w llama_api" and s :: "'w state" and modelPath :: "string option"
    and nThreads nCtx :: int
  defines "s' \<equiv> snd (nativeLoadModel api modelPath nThreads nCtx s)"
  assumes reach: "reachable api s"
  shows "at_most_one_alive (calls s) \<and> at_most_one_alive (calls s')
     \<and> (is_loaded (g_llama s) \<longrightarrow>
           alive_models (calls s) = [model (g_llama s)]
         \<and> alive_ctxs (calls s) = [ctx (g_llama s)]
         \<and> (\<exists>m rest. new_calls s s' =
               Free (ctx (g_llama s)) # Model_Free (model (g_llama s))
               # Model_Load_From_File (jstring_to_string modelPath) m # rest)
         \<and> alive_ctxs (calls s @ [Free (ctx (g_llama s))]) = []
         \<and> alive_models (calls s @ [Free (ctx (g_llama s)), Model_Free (model (g_llama s))]) = []
         \<and> alive_ctxs (calls s @ [Free (ctx (g_llama s)), Model_Free (model (g_llama s))]) = [])"
proof -
  note inv = reachable_inv [OF reach]
  have "reachable api s'"
    unfolding s'_def by (rule reachable.load [OF reach])
  then have one': "at_most_one_alive (calls s')"
    using reachable_inv by (auto simp add: lifecycle_inv_def)
  from inv have one: "at_most_one_alive (calls s)"
    by (simp add: lifecycle_inv_def)
  have loaded: "alive_models (calls s) = [model (g_llama s)]
         \<and> alive_ctxs (calls s) = [ctx (g_llama s)]
         \<and> (\<exists>m rest. new_calls s s' =
               Free (ctx (g_llama s)) # Model_Free (model (g_llama s))
               # Model_Load_From_File (jstring_to_string modelPath) m # rest)
         \<and> alive_ctxs (calls s @ [Free (ctx (g_llama s))]) = []
         \<and> alive_models (calls s @ [Free (ctx (g_llama s)), Model_Free (model (g_llama s))]) = []
         \<and> alive_ctxs (calls s @ [Free (ctx (g_llama s)), Model_Free (model (g_llama s))]) = []"
    if l: "is_loaded (g_llama s)"
  proof -
    from inv l have nn: "model (g_llama s) \<noteq> nullptr" "ctx (g_llama s) \<noteq> nullptr"
      and m: "alive_models (calls s) = [model (g_llama s)]"
      and c: "alive_ctxs (calls s) = [ctx (g_llama s)]"
      by (simp_all add: lifecycle_inv_def)
    from unload_previous_inv(1) [OF inv, of api] l
    have u: "calls (unload_previous api s) =
        calls s @ [Free (ctx (g_llama s)), Model_Free (model (g_llama s))]"
      by simp
    obtain ok s2 where run: "nativeLoadModel api modelPath nThreads nCtx s = (ok, s2)"
      by (cases "nativeLoadModel api modelPath nThreads nCtx s")
    then have s2: "s' = s2" by (simp add: s'_def)
    from run have "\<exists>m rest. calls s2 = calls s @
               (Free (ctx (g_llama s)) # Model_Free (model (g_llama s))
               # Model_Load_From_File (jstring_to_string modelPath) m # rest)"
      by (cases rule: nativeLoadModel_cases) (simp_all add: u)
    then obtain m rest where "calls s2 = calls s @
               (Free (ctx (g_llama s)) # Model_Free (model (g_llama s))
               # Model_Load_From_File (jstring_to_string modelPath) m # rest)"
      by blast
    from new_calls_append [OF this]
    have first: "\<exists>m rest. new_calls s s' =
               Free (ctx (g_llama s)) # Model_Free (model (g_llama s))
               # Model_Load_From_File (jstring_to_string modelPath) m # rest"
      unfolding s2 by blast
    have "alive_ctxs (calls s @ [Free (ctx (g_llama s))]) = []"
      by (simp add: c track_ctxs_def)
    moreover have "alive_models ((calls s @ [Free (ctx (g_llama s))])
        @ [Model_Free (model (g_llama s))]) = []"
      unfolding alive_simps by (simp add: m track_models_def)
    moreover have "alive_ctxs ((calls s @ [Free (ctx (g_llama s))])
        @ [Model_Free (model (g_llama s))]) = []"
      unfolding alive_simps by (simp add: c track_ctxs_def)
    ultimately show ?thesis using m c first by simp
  qed
  from one one' loaded show ?thesis by blast
qed

theorem load_replaces_previous_witness:
  "reachable fake_api fake_loaded \<and> is_loaded (g_llama fake_loaded)
   \<and> at_most_one_alive (calls fake_loaded)
   \<and> at_most_one_alive
        (calls (snd (nativeLoadModel fake_api (Some ''qwen.gguf'') 2 16 fake_loaded)))
   \<and> alive_models (calls fake_loaded) = [11] \<and> alive_ctxs (calls fake_loaded) = [13]
   \<and> new_calls fake_loaded (snd (nativeLoadModel fake_api (Some ''qwen.gguf'') 2 16 fake_loaded))
       = [Free 13, Model_Free 11, Model_Load_From_File ''qwen.gguf'' 11, Model_Get_Vocab 11 12,
          Init_From_Model 11 \<lparr>n_ctx = 16, n_threads = 2, n_threads_batch = 2\<rparr> 13]"
proof -
  have l: "is_loaded (g_llama fake_loaded)" "model (g_llama fake_loaded) = 11"
    "ctx (g_llama fake_loaded) = 13"
    by (simp_all add: fake_loaded_def)
  have calls: "new_calls fake_loaded
       (snd (nativeLoadModel fake_api (Some ''qwen.gguf'') 2 16 fake_loaded))
       = [Free 13, Model_Free 11, Model_Load_From_File ''qwen.gguf'' 11, Model_Get_Vocab 11 12,
          Init_From_Model 11 \<lparr>n_ctx = 16, n_threads = 2, n_threads_batch = 2\<rparr> 13]"
    by (simp add: fake_loaded_def nativeLoadModel_def unload_previous_def release_ctx_def
          release_model_def fake_api_def lib_call_def jstring_to_string_def nullptr_def
          set_is_loaded_def new_calls_def Let_def)
  from load_replaces_previous [OF fake_loaded_reachable, of "Some ''qwen.gguf''" 2 16] l
  have "at_most_one_alive (calls fake_loaded)"
    "at_most_one_alive
        (calls (snd (nativeLoadModel fake_api (Some ''qwen.gguf'') 2 16 fake_loaded)))"
    "alive_models (calls fake_loaded) = [11]" "alive_ctxs (calls fake_loaded) = [13]"
    by simp_all
  with fake_loaded_reachable l calls show ?thesis by simp
qed

text \<open>
  C9. From any reachable state, a nativeLoadModel in which the library returns no model
  for the file, or returns a model but then no context, returns false; afterwards
  nativeIsLoaded is false, both pointers of the global are null, and no model and no
  context is alive. In the second case the model that had been loaded is freed, as the
  last library call.
\<close>

theorem load_failure_keeps_nothing:
  fixes api :: "'w llama_api" and s s' :: "'w state" and modelPath :: "string option"
  assumes reach: "reachable api s"
    and run: "nativeLoadModel api modelPath nThreads nCtx s = (ok, s')"
    and fail: "Model_Load_From_File (jstring_to_string modelPath) nullptr \<in> set (new_calls s s')
               \<or> (\<exists>m p. Init_From_Model m p nullptr \<in> set (new_calls s s'))"
  shows "\<not> ok \<and> \<not> nativeIsLoaded s'
     \<and> model (g_llama s') = nullptr \<and> ctx (g_llama s') = nullptr
     \<and> alive_models (calls s') = [] \<and> alive_ctxs (calls s') = []
     \<and> (\<forall>m p. Init_From_Model m p nullptr \<in> set (new_calls s s') \<longrightarrow>
           m \<noteq> nullptr
           \<and> (\<exists>pre. new_calls s s' = pre @ [Init_From_Model m p nullptr, Model_Free m]))"
proof -
  note inv = reachable_inv [OF reach]
  note u = unload_previous_inv [OF inv, of api]
  let ?un = "if is_loaded (g_llama s)
            then [Free (ctx (g_llama s)), Model_Free (model (g_llama s))] else []"
  have "reachable api s'"
    using reachable.load [OF reach, of modelPath nThreads nCtx] run by simp
  then have inv': "lifecycle_inv s'" by (rule reachable_inv)
  from run show ?thesis
  proof (cases rule: nativeLoadModel_cases)
    case no_model
    from no_model(2) u(1) have "calls s' = calls s @ (?un
        @ [Model_Load_From_File (jstring_to_string modelPath) nullptr])"
      by simp
    from new_calls_append [OF this]
    have nc: "new_calls s s' = ?un
        @ [Model_Load_From_File (jstring_to_string modelPath) nullptr]" .
    from inv' no_model u(3,4) have "alive_models (calls s') = []" "alive_ctxs (calls s') = []"
      by (simp_all add: lifecycle_inv_def)
    with no_model u(3,4) show ?thesis
      unfolding nc by (simp add: nativeIsLoaded_def)
  next
    case (no_ctx m)
    let ?p = "\<lparr>n_ctx = word_of_int nCtx, n_threads = nThreads, n_threads_batch = nThreads\<rparr>"
    from no_ctx(3) u(1) have "calls s' = calls s @ (?un
        @ [Model_Load_From_File (jstring_to_string modelPath) m,
            Model_Get_Vocab m (llama_model_get_vocab api m),
            Init_From_Model m ?p nullptr, Model_Free m])"
      by simp
    from new_calls_append [OF this]
    have nc: "new_calls s s' = ?un
        @ [Model_Load_From_File (jstring_to_string modelPath) m,
            Model_Get_Vocab m (llama_model_get_vocab api m),
            Init_From_Model m ?p nullptr, Model_Free m]" .
    have last: "\<exists>pre. new_calls s s' = pre @ [Init_From_Model m ?p nullptr, Model_Free m]"
      unfolding nc
      by (intro exI [of _ "?un @ [Model_Load_From_File (jstring_to_string modelPath) m,
            Model_Get_Vocab m (llama_model_get_vocab api m)]"]) simp
    have only: "m' = m \<and> p = ?p"
      if "Init_From_Model m' p nullptr \<in> set (new_calls s s')" for m' p
      using that unfolding nc by (auto split: if_splits)
    from inv' no_ctx have "alive_models (calls s') = []" "alive_ctxs (calls s') = []"
      by (simp_all add: lifecycle_inv_def)
    with no_ctx u(4) last only show ?thesis
      by (auto simp add: nativeIsLoaded_def)
  next
    case (loaded m c)
    from loaded(4) u(1) have "calls s' = calls s @ (?un
        @ [Model_Load_From_File (jstring_to_string modelPath) m,
            Model_Get_Vocab m (llama_model_get_vocab api m),
            Init_From_Model m \<lparr>n_ctx = word_of_int nCtx, n_threads = nThreads,
                                n_threads_batch = nThreads\<rparr> c])"
      by simp
    from new_calls_append [OF this] fail loaded(1,2) have False
      by (auto split: if_splits)
    then show ?thesis ..
  qed
qed

theorem load_failure_keeps_nothing_witness:
  "reachable fake_api fake_loaded
   \<and> Model_Load_From_File (jstring_to_string (Some ''missing.gguf'')) nullptr
       \<in> set (new_calls fake_loaded
                (snd (nativeLoadModel fake_api (Some ''missing.gguf'') 4 8 fake_loaded)))
   \<and> Init_From_Model 11 \<lparr>n_ctx = 0, n_threads = 4, n_threads_batch = 4\<rparr> nullptr
       \<in> set (new_calls fake_loaded
                (snd (nativeLoadModel fake_api (Some ''qwen.gguf'') 4 0 fake_loaded)))
   \<and> \<not> fst (nativeLoadModel fake_api (Some ''missing.gguf'') 4 8 fake_loaded)
   \<and> \<not> nativeIsLoaded (snd (nativeLoadModel fake_api (Some ''missing.gguf'') 4 8 fake_loaded))
   \<and> alive_models
        (calls (snd (nativeLoadModel fake_api (Some ''missing.gguf'') 4 8 fake_loaded))) = []
   \<and> \<not> fst (nativeLoadModel fake_api (Some ''qwen.gguf'') 4 0 fake_loaded)
   \<and> \<not> nativeIsLoaded (snd (nativeLoadModel fake_api (Some ''qwen.gguf'') 4 0 fake_loaded))
   \<and> alive_models
        (calls (snd (nativeLoadModel fake_api (Some ''qwen.gguf'') 4 0 fake_loaded))) = []
   \<and> alive_ctxs
        (calls (snd (nativeLoadModel fake_api (Some ''qwen.gguf'') 4 0 fake_loaded))) = []"
proof -
  let ?run1 = "nativeLoadModel fake_api (Some ''missing.gguf'') 4 8 fake_loaded"
  let ?run2 = "nativeLoadModel fake_api (Some ''qwen.gguf'') 4 0 fake_loaded"
  have c1: "new_calls fake_loaded (snd ?run1)
      = [Free 13, Model_Free 11, Model_Load_From_File ''missing.gguf'' nullptr]"
    by (simp add: fake_loaded_def nativeLoadModel_def unload_previous_def release_ctx_def
          release_model_def fake_api_def lib_call_def jstring_to_string_def nullptr_def
          set_is_loaded_def new_calls_def Let_def)
  have c2: "new_calls fake_loaded (snd ?run2)
      = [Free 13, Model_Free 11, Model_Load_From_File ''qwen.gguf'' 11, Model_Get_Vocab 11 12,
         Init_From_Model 11 \<lparr>n_ctx = 0, n_threads = 4, n_threads_batch = 4\<rparr> nullptr,
         Model_Free 11]"
    by (simp add: fake_loaded_def nativeLoadModel_def unload_previous_def release_ctx_def
          release_model_def fake_api_def lib_call_def jstring_to_string_def nullptr_def
          set_is_loaded_def new_calls_def Let_def)
  have f1: "Model_Load_From_File (jstring_to_string (Some ''missing.gguf'')) nullptr
       \<in> set (new_calls fake_loaded (snd ?run1))"
    unfolding c1 by (simp add: jstring_to_string_def)
  have f2: "Init_From_Model 11 \<lparr>n_ctx = 0, n_threads = 4, n_threads_batch = 4\<rparr> nullptr
       \<in> set (new_calls fake_loaded (snd ?run2))"
    unfolding c2 by simp
  have e1: "?run1 = (fst ?run1, snd ?run1)" and e2: "?run2 = (fst ?run2, snd ?run2)"
    by simp_all
  have h1: "Model_Load_From_File (jstring_to_string (Some ''missing.gguf'')) nullptr
              \<in> set (new_calls fake_loaded (snd ?run1))
            \<or> (\<exists>m p. Init_From_Model m p nullptr \<in> set (new_calls fake_loaded (snd ?run1)))"
    using f1 by blast
  have h2: "Model_Load_From_File (jstring_to_string (Some ''qwen.gguf'')) nullptr
              \<in> set (new_calls fake_loaded (snd ?run2))
            \<or> (\<exists>m p. Init_From_Model m p nullptr \<in> set (new_calls fake_loaded (snd ?run2)))"
    using f2 by blast
  from load_failure_keeps_nothing [OF fake_loaded_reachable e1 h1]
  have r1: "\<not> fst ?run1" "\<not> nativeIsLoaded (snd ?run1)" "alive_models (calls (snd ?run1)) = []"
    by blast+
  from load_failure_keeps_nothing [OF fake_loaded_reachable e2 h2]
  have r2: "\<not> fst ?run2" "\<not> nativeIsLoaded (snd ?run2)" "alive_models (calls (snd ?run2)) = []"
    "alive_ctxs (calls (snd ?run2)) = []"
    by blast+
  from fake_loaded_reachable f1 f2 r1 r2 show ?thesis by simp
qed

text \<open>
  C10. nativeGenerate is a total function of \<open>maxTokens\<close>. On a loaded engine with
  \<open>maxTokens\<close> zero or negative it returns the empty string and samples no token. The
  steps before the loop are not skipped: the KV cache is cleared (when the context has a
  memory), the prompt is tokenised, and when it fits it is decoded as the prefill; that
  prefill is the only decode.
\<close>

theorem generate_nonpositive_max:
  fixes api :: "'w llama_api" and s s' :: "'w state" and prompt :: "string option"
  defines "toks \<equiv> tokenize_text api (vocab (g_llama s)) (jstring_to_string prompt) True True"
    and "mem \<equiv> llama_get_memory api (ctx (g_llama s)) (world s)"
  assumes "is_loaded (g_llama s)" "ctx (g_llama s) \<noteq> nullptr" "model (g_llama s) \<noteq> nullptr"
    and "nativeGenerate api prompt maxTokens temperature s = (out, s')"
    and nonpos: "maxTokens \<le> 0"
  shows "out = [] \<and> sampled (new_calls s s') = []
     \<and> (mem \<noteq> nullptr \<longrightarrow> Memory_Clear mem True \<in> set (new_calls s s'))
     \<and> (length toks \<le> llama_n_ctx api (ctx (g_llama s)) (world (clear_kv api s))
          \<longrightarrow> (\<exists>rc. Decode (ctx (g_llama s)) toks rc \<in> set (new_calls s s')))
     \<and> length (filter is_decode (new_calls s s')) \<le> 1"
proof -
  have clr: "mem \<noteq> nullptr \<longrightarrow> Memory_Clear mem True \<in> set (new_calls s (clear_kv api s))"
    and nodec: "filter is_decode (new_calls s (clear_kv api s)) = []"
    by (simp_all add: new_calls_clear_kv mem_def)
  from assms(3-6) show ?thesis
  proof (cases rule: nativeGenerate_calls)
    case overflow
    with clr nodec show ?thesis by (auto simp add: toks_def)
  next
    case (prefill_failed rc)
    with clr nodec show ?thesis by (auto simp add: toks_def)
  next
    case (generated smp st sd s10 s11)
    from generated(3) nonpos have "out = []" "s11 = s10"
      by (simp_all add: gen_loop_no_pass)
    then have "new_calls s10 s11 = []" by (simp add: new_calls_def)
    with generated \<open>out = []\<close> clr nodec show ?thesis by (auto simp add: toks_def)
  qed
qed

theorem generate_nonpositive_max_witness:
  "is_loaded (g_llama fake_loaded) \<and> ctx (g_llama fake_loaded) \<noteq> nullptr
   \<and> model (g_llama fake_loaded) \<noteq> nullptr \<and> (- 3 :: int) \<le> 0
   \<and> llama_get_memory fake_api (ctx (g_llama fake_loaded)) (world fake_loaded) \<noteq> nullptr
   \<and> length (tokenize_text fake_api (vocab (g_llama fake_loaded))
                (jstring_to_string (Some ''hi'')) True True)
         \<le> llama_n_ctx fake_api (ctx (g_llama fake_loaded)) (world (clear_kv fake_api fake_loaded))
   \<and> fst (nativeGenerate fake_api (Some ''hi'') (- 3) 0 fake_loaded) = []
   \<and> sampled (new_calls fake_loaded
         (snd (nativeGenerate fake_api (Some ''hi'') (- 3) 0 fake_loaded))) = []
   \<and> Memory_Clear (llama_get_memory fake_api (ctx (g_llama fake_loaded)) (world fake_loaded)) True
         \<in> set (new_calls fake_loaded
                  (snd (nativeGenerate fake_api (Some ''hi'') (- 3) 0 fake_loaded)))
   \<and> (\<exists>rc. Decode (ctx (g_llama fake_loaded))
               (tokenize_text fake_api (vocab (g_llama fake_loaded))
                  (jstring_to_string (Some ''hi'')) True True) rc
         \<in> set (new_calls fake_loaded
                  (snd (nativeGenerate fake_api (Some ''hi'') (- 3) 0 fake_loaded))))"
proof -
  let ?run = "nativeGenerate fake_api (Some ''hi'') (- 3) 0 fake_loaded"
  have l: "is_loaded (g_llama fake_loaded)" "ctx (g_llama fake_loaded) \<noteq> nullptr"
    "model (g_llama fake_loaded) \<noteq> nullptr"
    by (simp_all add: fake_loaded_def nullptr_def)
  have mem: "llama_get_memory fake_api (ctx (g_llama fake_loaded)) (world fake_loaded) \<noteq> nullptr"
    by (simp add: fake_api_def nullptr_def)
  have fits: "length (tokenize_text fake_api (vocab (g_llama fake_loaded))
                (jstring_to_string (Some ''hi'')) True True)
         \<le> llama_n_ctx fake_api (ctx (g_llama fake_loaded)) (world (clear_kv fake_api fake_loaded))"
    by (simp add: fake_api_def jstring_to_string_def)
  from generate_nonpositive_max [OF l, of fake_api "Some ''hi''" "- 3" 0 "fst ?run" "snd ?run"]
    l mem fits
  show ?thesis by simp
qed

end
